theory Spec2Isabelle
  imports Main "HOL-Library.Word" "HOL-Library.AList" "HOL-Library.Multiset"
begin

section \<open>Strings and buffers of the runtime\<close>

text \<open>
  The client is TypeScript running on Node. A string is a sequence of UTF-16 code units
  (\<open>length\<close>, \<open>substring\<close> and \<open>startsWith\<close> count code units); a \<open>Buffer\<close> is a
  sequence of bytes. String literals of the source are written with \<open>js\<close>.
\<close>

type_synonym jschar = "16 word"
type_synonym jsstring = "jschar list"
type_synonym byte = "8 word"

definition js :: "string \<Rightarrow> jsstring" where
  "js s = map of_char s"

definition LF :: jschar where
  "LF = 0x0A"

definition CR :: jschar where
  "CR = 0x0D"

text \<open>
  \<open>String.prototype.trim\<close> removes the code units of WhiteSpace and LineTerminator
  (ECMA-262) from both ends.
\<close>

definition is_space :: "jschar \<Rightarrow> bool" where
  "is_space c =
     (c = 0x09 \<or> c = 0x0A \<or> c = 0x0B \<or> c = 0x0C \<or> c = 0x0D \<or> c = 0x20 \<or> c = 0xA0
      \<or> c = 0x1680 \<or> (0x2000 \<le> c \<and> c \<le> 0x200A) \<or> c = 0x2028 \<or> c = 0x2029
      \<or> c = 0x202F \<or> c = 0x205F \<or> c = 0x3000 \<or> c = 0xFEFF)"

definition trim :: "jsstring \<Rightarrow> jsstring" where
  "trim s = rev (dropWhile is_space (rev (dropWhile is_space s)))"

text \<open>\<open>raw.replace(/\r$/, '')\<close>: one carriage return at the very end is removed.\<close>

definition strip_cr :: "jsstring \<Rightarrow> jsstring" where
  "strip_cr s = (if s \<noteq> [] \<and> last s = CR then butlast s else s)"

definition startsWith :: "jsstring \<Rightarrow> jsstring \<Rightarrow> bool" where
  "startsWith s p = (take (length p) s = p)"

text \<open>\<open>s.substring(n)\<close> for \<open>0 \<le> n\<close>: the code units from index \<open>n\<close> on (empty past the end).\<close>

definition substring_from :: "nat \<Rightarrow> jsstring \<Rightarrow> jsstring" where
  "substring_from n s = drop n s"

text \<open>
  \<open>s.split('\n')\<close>: the pieces between line feeds, in order. The result is never empty:
  the empty string splits into one empty piece, and a string that ends with a line feed
  has an empty last piece.
\<close>

fun split_lines :: "jsstring \<Rightarrow> jsstring list" where
  "split_lines [] = [[]]"
| "split_lines (c # cs) =
     (if c = LF then [] # split_lines cs
      else (case split_lines cs of
              [] \<Rightarrow> [[c]]
            | l # ls \<Rightarrow> (c # l) # ls))"

subsection \<open>\<open>Buffer.prototype.toString\<close>: UTF-8 decoding of one chunk\<close>

text \<open>
  \<open>chunk.toString()\<close> decodes the bytes of that one chunk as UTF-8. A byte sequence that
  is not well formed, which includes a multi-byte character cut off by the end of the
  chunk, is replaced by U+FFFD, one replacement per maximal ill-formed part; the decoder
  keeps nothing from one call to the next. \<open>pending\<close> is the number of continuation bytes
  still expected, \<open>lower\<close> and \<open>upper\<close> bound the next continuation byte.
\<close>

record utf8_state =
  code_point :: nat
  pending :: nat
  lower :: byte
  upper :: byte

definition utf8_init :: utf8_state where
  "utf8_init = \<lparr>code_point = 0, pending = 0, lower = 0x80, upper = 0xBF\<rparr>"

definition REPLACEMENT :: jschar where
  "REPLACEMENT = 0xFFFD"

definition utf16_units :: "nat \<Rightarrow> jsstring" where
  "utf16_units cp =
     (if cp < 0x10000 then [of_nat cp]
      else [of_nat (0xD800 + (cp - 0x10000) div 0x400),
            of_nat (0xDC00 + (cp - 0x10000) mod 0x400)])"

text \<open>A byte read when no character is pending.\<close>

definition utf8_lead :: "byte \<Rightarrow> jsstring \<times> utf8_state" where
  "utf8_lead b =
     (if b \<le> 0x7F then ([ucast b], utf8_init)
      else if 0xC2 \<le> b \<and> b \<le> 0xDF then
        ([], \<lparr>code_point = unat b mod 0x20, pending = 1, lower = 0x80, upper = 0xBF\<rparr>)
      else if 0xE0 \<le> b \<and> b \<le> 0xEF then
        ([], \<lparr>code_point = unat b mod 0x10, pending = 2,
              lower = (if b = 0xE0 then 0xA0 else 0x80),
              upper = (if b = 0xED then 0x9F else 0xBF)\<rparr>)
      else if 0xF0 \<le> b \<and> b \<le> 0xF4 then
        ([], \<lparr>code_point = unat b mod 0x08, pending = 3,
              lower = (if b = 0xF0 then 0x90 else 0x80),
              upper = (if b = 0xF4 then 0x8F else 0xBF)\<rparr>)
      else ([REPLACEMENT], utf8_init))"

definition utf8_step :: "utf8_state \<Rightarrow> byte \<Rightarrow> jsstring \<times> utf8_state" where
  "utf8_step st b =
     (if pending st = 0 then utf8_lead b
      else if lower st \<le> b \<and> b \<le> upper st then
        (let cp = code_point st * 0x40 + unat b mod 0x40 in
         if pending st = 1 then (utf16_units cp, utf8_init)
         else ([], \<lparr>code_point = cp, pending = pending st - 1, lower = 0x80, upper = 0xBF\<rparr>))
      else (case utf8_lead b of (out, st') \<Rightarrow> (REPLACEMENT # out, st')))"

fun utf8_decode :: "utf8_state \<Rightarrow> byte list \<Rightarrow> jsstring" where
  "utf8_decode st [] = (if pending st = 0 then [] else [REPLACEMENT])"
| "utf8_decode st (b # bs) =
     (case utf8_step st b of (out, st') \<Rightarrow> out @ utf8_decode st' bs)"

definition toString :: "byte list \<Rightarrow> jsstring" where
  "toString chunk = utf8_decode utf8_init chunk"

section \<open>JSON values and \<open>JSON.parse\<close>\<close>

text \<open>
  The value \<open>JSON.parse\<close> returns. A number keeps the exact decimal value \<open>m * 10 ^ e\<close> of
  its literal as the pair \<open>(m, e)\<close>. The runtime rounds it to binary64, which is not part
  of the model; the parser could tell the difference only by a literal below \<open>2 ^ -1075\<close>
  (zero, hence falsy, once rounded) or by a fractional \<open>length\<close> member within half a
  unit in the last place of a string's length. The members of an object are kept in
  source order; a later member of the same name overrides an earlier one when the object
  is read.
\<close>

datatype json =
    JNull
  | JBool bool
  | JNum int int
  | JStr jsstring
  | JArr "json list"
  | JObj "(jsstring \<times> json) list"

datatype token =
    TLBrace | TRBrace | TLBrack | TRBrack | TColon | TComma
  | TString jsstring | TNumber int int | TTrue | TFalse | TNull

definition is_digit :: "jschar \<Rightarrow> bool" where
  "is_digit c = (0x30 \<le> c \<and> c \<le> 0x39)"

definition digits_val :: "jsstring \<Rightarrow> nat" where
  "digits_val ds = foldl (\<lambda>a d. 10 * a + (unat d - 0x30)) 0 ds"

definition hex_val :: "jschar \<Rightarrow> nat option" where
  "hex_val c =
     (if 0x30 \<le> c \<and> c \<le> 0x39 then Some (unat c - 0x30)
      else if 0x41 \<le> c \<and> c \<le> 0x46 then Some (unat c - 0x37)
      else if 0x61 \<le> c \<and> c \<le> 0x66 then Some (unat c - 0x57)
      else None)"

definition hex4 :: "jschar \<Rightarrow> jschar \<Rightarrow> jschar \<Rightarrow> jschar \<Rightarrow> jschar option" where
  "hex4 a b c d =
     (case (hex_val a, hex_val b, hex_val c, hex_val d) of
        (Some w, Some x, Some y, Some z) \<Rightarrow> Some (of_nat (((w * 16 + x) * 16 + y) * 16 + z))
      | _ \<Rightarrow> None)"

text \<open>The character after a backslash, other than \<open>u\<close>.\<close>

definition unescape :: "jschar \<Rightarrow> jschar option" where
  "unescape c =
     (if c = 0x22 \<or> c = 0x5C \<or> c = 0x2F then Some c
      else if c = 0x62 then Some 0x08
      else if c = 0x66 then Some 0x0C
      else if c = 0x6E then Some 0x0A
      else if c = 0x72 then Some 0x0D
      else if c = 0x74 then Some 0x09
      else None)"

definition add_char :: "jschar \<Rightarrow> (jsstring \<times> jsstring) option \<Rightarrow> (jsstring \<times> jsstring) option" where
  "add_char c r = (case r of None \<Rightarrow> None | Some (s, rest) \<Rightarrow> Some (c # s, rest))"

text \<open>
  The body of a string literal, read from after its opening quote: the characters it
  denotes and the input after its closing quote.
\<close>

fun lex_string :: "jsstring \<Rightarrow> (jsstring \<times> jsstring) option" where
  "lex_string [] = None"
| "lex_string (c # cs) =
     (if c = 0x22 then Some ([], cs)
      else if c = 0x5C then
        (case cs of
           [] \<Rightarrow> None
         | e # cs1 \<Rightarrow>
             if e = 0x75 then
               (case cs1 of
                  h1 # h2 # h3 # h4 # cs2 \<Rightarrow>
                    (case hex4 h1 h2 h3 h4 of
                       None \<Rightarrow> None
                     | Some u \<Rightarrow> add_char u (lex_string cs2))
                | _ \<Rightarrow> None)
             else
               (case unescape e of
                  None \<Rightarrow> None
                | Some u \<Rightarrow> add_char u (lex_string cs1)))
      else if c < 0x20 then None
      else add_char c (lex_string cs))"

text \<open>
  A decimal literal cut into its integer digits, whether it has a point, its fraction
  digits and its exponent (sign and digits); \<open>None\<close> when something is left over or an
  exponent has no digits.
\<close>

definition scan_exponent :: "jsstring \<Rightarrow> (bool \<times> jsstring) option option" where
  "scan_exponent r =
     (case r of
        [] \<Rightarrow> Some None
      | c # r1 \<Rightarrow>
          if c = 0x65 \<or> c = 0x45 then
            (let neg = (r1 \<noteq> [] \<and> hd r1 = 0x2D);
                 ds = (if r1 \<noteq> [] \<and> (hd r1 = 0x2D \<or> hd r1 = 0x2B) then tl r1 else r1)
             in if ds \<noteq> [] \<and> list_all is_digit ds then Some (Some (neg, ds)) else None)
          else None)"

definition scan_decimal ::
  "jsstring \<Rightarrow> (jsstring \<times> bool \<times> jsstring \<times> (bool \<times> jsstring) option) option" where
  "scan_decimal s =
     (let ip = takeWhile is_digit s;
          r1 = dropWhile is_digit s;
          dot = (r1 \<noteq> [] \<and> hd r1 = 0x2E);
          fp = (if dot then takeWhile is_digit (tl r1) else []);
          r2 = (if dot then dropWhile is_digit (tl r1) else r1)
      in case scan_exponent r2 of
           None \<Rightarrow> None
         | Some ex \<Rightarrow> Some (ip, dot, fp, ex))"

definition decimal_value :: "jsstring \<Rightarrow> jsstring \<Rightarrow> (bool \<times> jsstring) option \<Rightarrow> int \<times> int" where
  "decimal_value ip fp ex =
     (int (digits_val (ip @ fp)),
      (case ex of
         None \<Rightarrow> 0
       | Some (neg, ds) \<Rightarrow> (if neg then - int (digits_val ds) else int (digits_val ds)))
      - int (length fp))"

text \<open>
  A JSON number: an optional minus, an integer part without a leading zero (unless it is
  the single digit 0), an optional fraction with at least one digit, an optional exponent.
\<close>

definition json_number :: "jsstring \<Rightarrow> (int \<times> int) option" where
  "json_number s =
     (let neg = (s \<noteq> [] \<and> hd s = 0x2D);
          body = (if neg then tl s else s)
      in case scan_decimal body of
           None \<Rightarrow> None
         | Some (ip, dot, fp, ex) \<Rightarrow>
             if ip = [] \<or> (length ip > 1 \<and> hd ip = 0x30) \<or> (dot \<and> fp = []) then None
             else (case decimal_value ip fp ex of
                     (m, e) \<Rightarrow> Some (if neg then - m else m, e)))"

definition is_num_char :: "jschar \<Rightarrow> bool" where
  "is_num_char c = (is_digit c \<or> c = 0x2D \<or> c = 0x2B \<or> c = 0x2E \<or> c = 0x65 \<or> c = 0x45)"

definition json_ws :: "jschar \<Rightarrow> bool" where
  "json_ws c = (c = 0x20 \<or> c = 0x09 \<or> c = 0x0A \<or> c = 0x0D)"

definition push_token :: "token \<Rightarrow> token list option \<Rightarrow> token list option" where
  "push_token t r = map_option ((#) t) r"

function lex :: "jsstring \<Rightarrow> token list option" where
  "lex [] = Some []"
| "lex (c # cs) =
     (if json_ws c then lex cs
      else if c = 0x7B then push_token TLBrace (lex cs)
      else if c = 0x7D then push_token TRBrace (lex cs)
      else if c = 0x5B then push_token TLBrack (lex cs)
      else if c = 0x5D then push_token TRBrack (lex cs)
      else if c = 0x3A then push_token TColon (lex cs)
      else if c = 0x2C then push_token TComma (lex cs)
      else if c = 0x22 then
        (case lex_string cs of
           None \<Rightarrow> None
         | Some (s, rest) \<Rightarrow> push_token (TString s) (lex rest))
      else if c = 0x2D \<or> is_digit c then
        (case json_number (c # takeWhile is_num_char cs) of
           None \<Rightarrow> None
         | Some (m, e) \<Rightarrow> push_token (TNumber m e) (lex (dropWhile is_num_char cs)))
      else if take 4 (c # cs) = js ''true'' then push_token TTrue (lex (drop 3 cs))
      else if take 5 (c # cs) = js ''false'' then push_token TFalse (lex (drop 4 cs))
      else if take 4 (c # cs) = js ''null'' then push_token TNull (lex (drop 3 cs))
      else None)"
  by pat_completeness auto
termination
proof -
  have shorter: "length rest < length cs" if "lex_string cs = Some (s, rest)" for cs s rest
    using that
  proof (induction cs arbitrary: s rest rule: lex_string.induct)
    case 1
    then show ?case by simp
  next
    case (2 c cs)
    then show ?case
      by (fastforce simp: add_char_def split: if_splits list.splits option.splits)
  qed
  show ?thesis
    by (relation "measure length")
       (auto intro: le_imp_less_Suc length_dropWhile_le dest: shorter)
qed

text \<open>
  The grammar over the tokens, as a pushdown automaton. A frame is a container that is
  still open: an array with the elements read so far, an object with the members read so
  far, or an object member whose name has been read (both lists newest first).
\<close>

datatype frame =
    InArray "json list"
  | InObject "(jsstring \<times> json) list"
  | InMember "(jsstring \<times> json) list" jsstring

datatype expect =
    Value | ValueOrClose | KeyOrClose | Key | ColonNext | CommaOrClose | Finished json

definition reduce :: "json \<Rightarrow> frame list \<Rightarrow> (expect \<times> frame list) option" where
  "reduce v fs =
     (case fs of
        [] \<Rightarrow> Some (Finished v, [])
      | InArray xs # fs' \<Rightarrow> Some (CommaOrClose, InArray (v # xs) # fs')
      | InMember kvs k # fs' \<Rightarrow> Some (CommaOrClose, InObject ((k, v) # kvs) # fs')
      | InObject kvs # fs' \<Rightarrow> None)"

definition close_array :: "frame list \<Rightarrow> (expect \<times> frame list) option" where
  "close_array fs = (case fs of InArray xs # fs' \<Rightarrow> reduce (JArr (rev xs)) fs' | _ \<Rightarrow> None)"

definition close_object :: "frame list \<Rightarrow> (expect \<times> frame list) option" where
  "close_object fs = (case fs of InObject kvs # fs' \<Rightarrow> reduce (JObj (rev kvs)) fs' | _ \<Rightarrow> None)"

definition open_member :: "frame list \<Rightarrow> jsstring \<Rightarrow> (expect \<times> frame list) option" where
  "open_member fs k =
     (case fs of InObject kvs # fs' \<Rightarrow> Some (ColonNext, InMember kvs k # fs') | _ \<Rightarrow> None)"

definition value_start :: "frame list \<Rightarrow> token \<Rightarrow> (expect \<times> frame list) option" where
  "value_start fs t =
     (case t of
        TLBrack \<Rightarrow> Some (ValueOrClose, InArray [] # fs)
      | TLBrace \<Rightarrow> Some (KeyOrClose, InObject [] # fs)
      | TString s \<Rightarrow> reduce (JStr s) fs
      | TNumber m e \<Rightarrow> reduce (JNum m e) fs
      | TTrue \<Rightarrow> reduce (JBool True) fs
      | TFalse \<Rightarrow> reduce (JBool False) fs
      | TNull \<Rightarrow> reduce JNull fs
      | _ \<Rightarrow> None)"

definition pda_step :: "expect \<Rightarrow> frame list \<Rightarrow> token \<Rightarrow> (expect \<times> frame list) option" where
  "pda_step ex fs t =
     (case ex of
        Finished v \<Rightarrow> None
      | Value \<Rightarrow> value_start fs t
      | ValueOrClose \<Rightarrow> (case t of TRBrack \<Rightarrow> close_array fs | _ \<Rightarrow> value_start fs t)
      | KeyOrClose \<Rightarrow>
          (case t of TRBrace \<Rightarrow> close_object fs | TString k \<Rightarrow> open_member fs k | _ \<Rightarrow> None)
      | Key \<Rightarrow> (case t of TString k \<Rightarrow> open_member fs k | _ \<Rightarrow> None)
      | ColonNext \<Rightarrow> (case t of TColon \<Rightarrow> Some (Value, fs) | _ \<Rightarrow> None)
      | CommaOrClose \<Rightarrow>
          (case t of
             TComma \<Rightarrow>
               (case fs of
                  InArray xs # fs' \<Rightarrow> Some (Value, fs)
                | InObject kvs # fs' \<Rightarrow> Some (Key, fs)
                | _ \<Rightarrow> None)
           | TRBrack \<Rightarrow> close_array fs
           | TRBrace \<Rightarrow> close_object fs
           | _ \<Rightarrow> None))"

fun pda :: "expect \<Rightarrow> frame list \<Rightarrow> token list \<Rightarrow> json option" where
  "pda ex fs [] = (case ex of Finished v \<Rightarrow> Some v | _ \<Rightarrow> None)"
| "pda ex fs (t # ts) =
     (case pda_step ex fs t of
        None \<Rightarrow> None
      | Some (ex', fs') \<Rightarrow> pda ex' fs' ts)"

text \<open>\<open>JSON.parse(text)\<close>: the value, or \<open>None\<close> where the runtime throws a SyntaxError.\<close>

definition JSON_parse :: "jsstring \<Rightarrow> json option" where
  "JSON_parse s = (case lex s of None \<Rightarrow> None | Some ts \<Rightarrow> pda Value [] ts)"

section \<open>The operations of the language on parsed values\<close>

text \<open>
  The stream parser reads the parsed document with property accesses, truth tests,
  \<open>Array.isArray\<close>, \<open>typeof\<close> and one comparison of lengths. A property that is not
  there reads as \<open>undefined\<close>, which is \<open>None\<close> here.

  \<open>property v k\<close> is \<open>v.k\<close> for a value \<open>v\<close> other than \<open>null\<close> and for the names the
  parser reads with it (\<open>thread_url_slug\<close>, \<open>read_write_token\<close>, \<open>blocks\<close>,
  \<open>intended_usage\<close>, \<open>markdown_block\<close>, \<open>chunks\<close>, \<open>answer\<close>): none of them is a property
  of an array, a string, a number or a boolean, so only an object can have one. The
  \<open>length\<close> of an array or a string is read by \<open>length_gt\<close> below.
\<close>

definition property :: "json \<Rightarrow> jsstring \<Rightarrow> json option" where
  "property v k = (case v of JObj kvs \<Rightarrow> map_of (rev kvs) k | _ \<Rightarrow> None)"

fun truthy :: "json \<Rightarrow> bool" where
  "truthy JNull = False"
| "truthy (JBool b) = b"
| "truthy (JNum m e) = (m \<noteq> 0)"
| "truthy (JStr s) = (s \<noteq> [])"
| "truthy (JArr xs) = True"
| "truthy (JObj kvs) = True"

text \<open>The decimal \<open>m * 10 ^ e\<close> is greater than the natural number \<open>k\<close>.\<close>

definition dec_gt :: "int \<Rightarrow> int \<Rightarrow> nat \<Rightarrow> bool" where
  "dec_gt m e k =
     (if 0 \<le> e then int k < m * 10 ^ nat e else int k * 10 ^ nat (- e) < m)"

definition radix_val :: "nat \<Rightarrow> jsstring \<Rightarrow> nat" where
  "radix_val b ds =
     foldl (\<lambda>a d. b * a + (case hex_val d of None \<Rightarrow> 0 | Some v \<Rightarrow> v)) 0 ds"

definition radix_digits :: "nat \<Rightarrow> jsstring \<Rightarrow> bool" where
  "radix_digits b ds =
     (ds \<noteq> [] \<and> list_all (\<lambda>d. case hex_val d of None \<Rightarrow> False | Some v \<Rightarrow> v < b) ds)"

text \<open>
  \<open>s > k\<close> for a string \<open>s\<close> and a number \<open>k\<close>: the string is read as a numeric literal
  (surrounding white space dropped; empty is 0; binary, octal and hexadecimal integers;
  signed decimals; \<open>Infinity\<close>), and anything else is \<open>NaN\<close>, which is greater than nothing.
\<close>

definition string_gt :: "jsstring \<Rightarrow> nat \<Rightarrow> bool" where
  "string_gt s k =
     (let t = trim s in
      if t = [] then False
      else if length t > 2 \<and> hd t = 0x30 \<and> (t ! 1 = 0x62 \<or> t ! 1 = 0x42) then
        radix_digits 2 (drop 2 t) \<and> k < radix_val 2 (drop 2 t)
      else if length t > 2 \<and> hd t = 0x30 \<and> (t ! 1 = 0x6F \<or> t ! 1 = 0x4F) then
        radix_digits 8 (drop 2 t) \<and> k < radix_val 8 (drop 2 t)
      else if length t > 2 \<and> hd t = 0x30 \<and> (t ! 1 = 0x78 \<or> t ! 1 = 0x58) then
        radix_digits 16 (drop 2 t) \<and> k < radix_val 16 (drop 2 t)
      else
        (let neg = (hd t = 0x2D);
             body = (if hd t = 0x2D \<or> hd t = 0x2B then tl t else t)
         in if body = js ''Infinity'' then \<not> neg
            else (case scan_decimal body of
                    None \<Rightarrow> False
                  | Some (ip, dot, fp, ex) \<Rightarrow>
                      if ip = [] \<and> fp = [] then False
                      else if neg then False
                      else (case decimal_value ip fp ex of (m, e) \<Rightarrow> dec_gt m e k))))"

text \<open>
  \<open>v > k\<close> for a parsed value \<open>v\<close> and a number \<open>k \<ge> 0\<close>. \<open>null\<close> and \<open>false\<close> count as 0,
  \<open>true\<close> as 1; an array is first joined into a string, so only an array of one element
  can be a number (an empty one is 0); an object is \<open>NaN\<close>.
\<close>

fun value_gt :: "json \<Rightarrow> nat \<Rightarrow> bool" where
  "value_gt JNull k = False"
| "value_gt (JBool b) k = (b \<and> k = 0)"
| "value_gt (JNum m e) k = dec_gt m e k"
| "value_gt (JStr s) k = string_gt s k"
| "value_gt (JArr xs) k =
     (case xs of
        [x] \<Rightarrow> (case x of
                  JNull \<Rightarrow> False
                | JBool b \<Rightarrow> False
                | JObj kvs \<Rightarrow> False
                | _ \<Rightarrow> value_gt x k)
      | _ \<Rightarrow> False)"
| "value_gt (JObj kvs) k = False"

text \<open>
  \<open>a.length > k\<close> for a truthy \<open>a\<close>: the length of a string or an array, the member
  \<open>length\<close> of an object, \<open>undefined\<close> (never greater) for a number or \<open>true\<close>.
\<close>

definition length_gt :: "json \<Rightarrow> nat \<Rightarrow> bool" where
  "length_gt a k =
     (case a of
        JStr s \<Rightarrow> k < length s
      | JArr xs \<Rightarrow> k < length xs
      | JObj kvs \<Rightarrow> (case property a (js ''length'') of None \<Rightarrow> False | Some v \<Rightarrow> value_gt v k)
      | _ \<Rightarrow> False)"

section \<open>The stream parser: \<open>PerplexityClient.processStreamingResponse\<close>\<close>

text \<open>
  The variables of the closure, with the calls made to \<open>onToken\<close> so far in \<open>tokens\<close>.
  \<open>threadUrlSlug\<close> and \<open>readWriteToken\<close> hold whatever truthy value the stream gave them,
  which the source does not require to be a string.
\<close>

record parser_state =
  buffer :: jsstring
  currentAnswer :: jsstring
  threadUrlSlug :: json
  readWriteToken :: json
  lastEvent :: jsstring
  tokens :: "jsstring list"

record response =
  success :: bool
  answer :: jsstring
  resp_threadUrlSlug :: json
  resp_readWriteToken :: json
  fullResponse :: nat

definition initial :: parser_state where
  "initial = \<lparr>buffer = [], currentAnswer = [], threadUrlSlug = JStr [],
              readWriteToken = JStr [], lastEvent = [], tokens = []\<rparr>"

text \<open>
  How the body of the \<open>try\<close> block ends: it runs to its end, or a TypeError leaves it.
  Either way the state reached so far stays, since the \<open>catch\<close> clause does nothing.
\<close>

datatype attempt = Returned parser_state | Threw parser_state

definition state_of :: "attempt \<Rightarrow> parser_state" where
  "state_of a = (case a of Returned st \<Rightarrow> st | Threw st \<Rightarrow> st)"

text \<open>
  \<open>if (onToken) onToken(t)\<close>; \<open>cb\<close> says whether the caller passed a callback. The
  callback is taken to return, as the service's does.
\<close>

definition emit :: "bool \<Rightarrow> jsstring \<Rightarrow> parser_state \<Rightarrow> parser_state" where
  "emit cb t st = (if cb then st\<lparr>tokens := tokens st @ [t]\<rparr> else st)"

fun process_chunks :: "bool \<Rightarrow> parser_state \<Rightarrow> json list \<Rightarrow> parser_state" where
  "process_chunks cb st [] = st"
| "process_chunks cb st (ch # chs) =
     process_chunks cb
       (case ch of
          JStr t \<Rightarrow> (emit cb t st)\<lparr>currentAnswer := currentAnswer st @ t\<rparr>
        | _ \<Rightarrow> st)
       chs"

text \<open>\<open>Array.isArray(mb.chunks) && mb.chunks.length > 0\<close>, and the elements then.\<close>

definition has_chunks :: "json \<Rightarrow> bool" where
  "has_chunks mb = (case property mb (js ''chunks'') of Some (JArr chs) \<Rightarrow> chs \<noteq> [] | _ \<Rightarrow> False)"

definition chunks_of :: "json \<Rightarrow> json list" where
  "chunks_of mb = (case property mb (js ''chunks'') of Some (JArr chs) \<Rightarrow> chs | _ \<Rightarrow> [])"

text \<open>
  The chunk list if there is one, else the cumulative answer. A cumulative answer that
  is longer than the text so far but is not a string has no \<open>substring\<close> to call.
\<close>

definition process_markdown :: "bool \<Rightarrow> parser_state \<Rightarrow> json \<Rightarrow> attempt" where
  "process_markdown cb st mb =
     (if has_chunks mb then Returned (process_chunks cb st (chunks_of mb))
      else
        (case property mb (js ''answer'') of
           None \<Rightarrow> Returned st
         | Some a \<Rightarrow>
             if truthy a \<and> length_gt a (length (currentAnswer st)) then
               (case a of
                  JStr t \<Rightarrow>
                    Returned ((emit cb (substring_from (length (currentAnswer st)) t) st)
                                \<lparr>currentAnswer := t\<rparr>)
                | _ \<Rightarrow> Threw st)
             else Returned st))"

definition process_block :: "bool \<Rightarrow> parser_state \<Rightarrow> json \<Rightarrow> attempt" where
  "process_block cb st block =
     (if truthy block \<and> property block (js ''intended_usage'') = Some (JStr (js ''ask_text'')) then
        (case property block (js ''markdown_block'') of
           None \<Rightarrow> Returned st
         | Some mb \<Rightarrow> if truthy mb then process_markdown cb st mb else Returned st)
      else Returned st)"

fun process_blocks :: "bool \<Rightarrow> parser_state \<Rightarrow> json list \<Rightarrow> attempt" where
  "process_blocks cb st [] = Returned st"
| "process_blocks cb st (block # blocks) =
     (case process_block cb st block of
        Threw st' \<Rightarrow> Threw st'
      | Returned st' \<Rightarrow> process_blocks cb st' blocks)"

definition read_metadata :: "parser_state \<Rightarrow> json \<Rightarrow> parser_state" where
  "read_metadata st data =
     (let st1 = (case property data (js ''thread_url_slug'') of
                   None \<Rightarrow> st
                 | Some v \<Rightarrow> if truthy v then st\<lparr>threadUrlSlug := v\<rparr> else st)
      in case property data (js ''read_write_token'') of
           None \<Rightarrow> st1
         | Some v \<Rightarrow> if truthy v then st1\<lparr>readWriteToken := v\<rparr> else st1)"

text \<open>
  The statements after \<open>JSON.parse\<close>. Reading a property of \<open>null\<close> throws; any other
  document is read for its metadata first, then for its blocks unless the current event name rules them out.
\<close>

definition process_data :: "bool \<Rightarrow> parser_state \<Rightarrow> json \<Rightarrow> attempt" where
  "process_data cb st data =
     (if data = JNull then Threw st
      else
        (let st' = read_metadata st data in
         if lastEvent st \<noteq> [] \<and> lastEvent st \<noteq> js ''message'' then Returned st'
         else (case property data (js ''blocks'') of
                 Some (JArr blocks) \<Rightarrow> process_blocks cb st' blocks
               | _ \<Rightarrow> Returned st')))"

definition process_line :: "bool \<Rightarrow> parser_state \<Rightarrow> jsstring \<Rightarrow> parser_state" where
  "process_line cb st raw =
     (let line = trim (strip_cr raw) in
      if line = [] then st
      else if startsWith line (js ''event:'') then
        st\<lparr>lastEvent := trim (substring_from 6 line)\<rparr>
      else if \<not> startsWith line (js ''data:'') then st
      else
        (let dataStr = trim (substring_from 6 line) in
         if dataStr = js ''{}'' then st
         else (case JSON_parse dataStr of
                 None \<Rightarrow> st
               | Some data \<Rightarrow> state_of (process_data cb st data))))"

text \<open>The \<open>data\<close> handler: one chunk arrives.\<close>

definition on_data :: "bool \<Rightarrow> parser_state \<Rightarrow> byte list \<Rightarrow> parser_state" where
  "on_data cb st chunk =
     (let lines = split_lines (buffer st @ toString chunk)
      in foldl (process_line cb) (st\<lparr>buffer := last lines\<rparr>) (butlast lines))"

text \<open>The \<open>end\<close> handler resolves the promise with this value.\<close>

definition on_end :: "parser_state \<Rightarrow> response" where
  "on_end st =
     \<lparr>success = True, answer = currentAnswer st, resp_threadUrlSlug = threadUrlSlug st,
      resp_readWriteToken = readWriteToken st, fullResponse = length (currentAnswer st)\<rparr>"

text \<open>
  A stream delivers its chunks and then ends, or fails with an error that has a message.
  The promise is resolved with the response or rejected with a new error.
\<close>

datatype stream_close = End | Error jsstring

definition settle :: "parser_state \<Rightarrow> stream_close \<Rightarrow> jsstring + response" where
  "settle st c =
     (case c of
        End \<Rightarrow> Inr (on_end st)
      | Error msg \<Rightarrow> Inl (js ''Stream error: '' @ msg))"

text \<open>
  The whole run: the tokens passed to \<open>onToken\<close>, in order, and how the promise settles.
\<close>

definition run_chunks :: "bool \<Rightarrow> byte list list \<Rightarrow> parser_state" where
  "run_chunks cb chunks = foldl (on_data cb) initial chunks"

definition processStreamingResponse ::
  "bool \<Rightarrow> byte list list \<Rightarrow> stream_close \<Rightarrow> jsstring list \<times> (jsstring + response)" where
  "processStreamingResponse cb chunks c =
     (let st = run_chunks cb chunks in (tokens st, settle st c))"

section \<open>The conversation service: \<open>PerplexityService\<close>\<close>

text \<open>
  The service keeps its conversations in a \<open>Map\<close>, which holds each key once and
  iterates in insertion order: an association list, updated in place for a key it has
  and extended at the end for a new one. An instant (\<open>Date\<close>) is its number of
  milliseconds. \<open>storage\<close> is the value last stored under the key
  \<open>perplexity.conversations\<close>, read as the list of conversations it serializes, and
  \<open>fired\<close> the events fired so far. \<open>isWeb\<close> is the platform's constant of that name.
  The calls of one operation run without another operation in between. \<open>initialize\<close>,
  \<open>authenticate\<close> and \<open>loadConversations\<close> only set the fields the operations below start
  from.
\<close>

record message =
  msg_id :: jsstring
  content :: jsstring
  timestamp :: int
  isUser :: bool
  msg_response :: "response option"

record conversation =
  conv_id :: jsstring
  title :: jsstring
  messages :: "message list"
  createdAt :: int
  updatedAt :: int

datatype event =
    TokenReceived jsstring jsstring
  | MessageCompleted jsstring response

record service =
  isAuthenticated :: bool
  isWeb :: bool
  conversations :: "(jsstring \<times> conversation) list"
  storage :: "conversation list option"
  fired :: "event list"

text \<open>
  \<open>generateId\<close> is \<open>Date.now().toString(36) + Math.random().toString(36).substring(2)\<close>.
  The clock's reading and the random part are inputs; the reading is written in base 36.
\<close>

definition digit36 :: "nat \<Rightarrow> jschar" where
  "digit36 d = (if d < 10 then of_nat (0x30 + d) else of_nat (0x57 + d))"

fun digits36 :: "nat \<Rightarrow> jsstring" where
  "digits36 n = (if n < 36 then [digit36 n] else digits36 (n div 36) @ [digit36 (n mod 36)])"

declare digits36.simps [simp del]

definition toString36 :: "int \<Rightarrow> jsstring" where
  "toString36 i = (if i < 0 then 0x2D # digits36 (nat (- i)) else digits36 (nat i))"

definition generateId :: "int \<Rightarrow> jsstring \<Rightarrow> jsstring" where
  "generateId now random = toString36 now @ random"

text \<open>
  \<open>saveConversations\<close> stores the values of the map, in its order. The storage service
  is taken to accept the write.
\<close>

definition saveConversations :: "service \<Rightarrow> service" where
  "saveConversations s = s\<lparr>storage := Some (map snd (conversations s))\<rparr>"

text \<open>What \<open>createConversation\<close> reads from its environment: the id's parts and two instants.\<close>

record create_env =
  id_now :: int
  id_random :: jsstring
  created_now :: int
  updated_now :: int

definition createConversation ::
  "create_env \<Rightarrow> jsstring option \<Rightarrow> service \<Rightarrow> service \<times> conversation" where
  "createConversation env title_arg s =
     (let conv = \<lparr>conv_id = generateId (id_now env) (id_random env),
                  title = (case title_arg of
                             None \<Rightarrow> js ''New Conversation''
                           | Some t \<Rightarrow> if t \<noteq> [] then t else js ''New Conversation''),
                  messages = [],
                  createdAt = created_now env,
                  updatedAt = updated_now env\<rparr>
      in (saveConversations
            (s\<lparr>conversations := AList.update (conv_id conv) conv (conversations s)\<rparr>),
          conv))"

definition deleteConversation :: "jsstring \<Rightarrow> service \<Rightarrow> service" where
  "deleteConversation cid s =
     saveConversations (s\<lparr>conversations := AList.delete cid (conversations s)\<rparr>)"

definition clearConversations :: "service \<Rightarrow> service" where
  "clearConversations s = saveConversations (s\<lparr>conversations := []\<rparr>)"

definition getConversation :: "jsstring \<Rightarrow> service \<Rightarrow> conversation option" where
  "getConversation cid s = map_of (conversations s) cid"


text \<open>
  What \<open>sendMessage\<close> reads from its environment, in the order it reads it: the parts of
  the message id; what a new conversation needs, when none is named; two instants for
  the user message; the exchange with the client, which passes tokens to the callback
  and then throws an error or returns a response; the parts of the assistant message's
  id and its two instants.
\<close>

record send_env =
  message_now :: int
  message_random :: jsstring
  fresh :: create_env
  user_timestamp :: int
  user_updated :: int
  exchange :: "jsstring list \<times> (jsstring + response)"
  assistant_now :: int
  assistant_random :: jsstring
  assistant_timestamp :: int
  assistant_updated :: int

datatype send_error =
    NotAuthenticated
  | NotSupportedInWeb
  | ConversationNotFound jsstring
  | ExchangeFailed jsstring

text \<open>
  The conversation the message goes to, with its key in the map: the one named, which
  must be there, or a new one when the argument is missing or empty.
\<close>

definition target ::
  "send_env \<Rightarrow> jsstring option \<Rightarrow> service \<Rightarrow> send_error + (service \<times> jsstring \<times> conversation)" where
  "target env conversationId s =
     (case conversationId of
        Some cid \<Rightarrow>
          if cid \<noteq> [] then
            (case map_of (conversations s) cid of
               None \<Rightarrow> Inl (ConversationNotFound cid)
             | Some existing \<Rightarrow> Inr (s, cid, existing))
          else (case createConversation (fresh env) None s of
                  (s', conv) \<Rightarrow> Inr (s', conv_id conv, conv))
      | None \<Rightarrow>
          (case createConversation (fresh env) None s of
             (s', conv) \<Rightarrow> Inr (s', conv_id conv, conv)))"

text \<open>The conversation object held under a key of the map is mutated.\<close>

definition write_back :: "jsstring \<Rightarrow> conversation \<Rightarrow> service \<Rightarrow> service" where
  "write_back key conv s = s\<lparr>conversations := AList.update key conv (conversations s)\<rparr>"

definition first_title :: "jsstring \<Rightarrow> jsstring" where
  "first_title text = (if length text > 50 then take 50 text @ js ''...'' else text)"

definition sendMessage ::
  "send_env \<Rightarrow> jsstring \<Rightarrow> jsstring option \<Rightarrow> service \<Rightarrow> service \<times> (send_error + jsstring)" where
  "sendMessage env text conversationId s =
     (if \<not> isAuthenticated s then (s, Inl NotAuthenticated)
      else if isWeb s then (s, Inl NotSupportedInWeb)
      else
        (let messageId = generateId (message_now env) (message_random env) in
         case target env conversationId s of
           Inl e \<Rightarrow> (s, Inl e)
         | Inr (s1, key, conv) \<Rightarrow>
             (let userMessage = \<lparr>msg_id = messageId, content = text,
                                 timestamp = user_timestamp env, isUser = True,
                                 msg_response = None\<rparr>;
                  conv1 = conv\<lparr>messages := messages conv @ [userMessage],
                              updatedAt := user_updated env\<rparr>;
                  s2 = write_back key conv1 s1;
                  s3 = s2\<lparr>fired := fired s2 @ map (TokenReceived messageId) (fst (exchange env))\<rparr>
              in case snd (exchange env) of
                   Inl err \<Rightarrow> (s3, Inl (ExchangeFailed err))
                 | Inr resp \<Rightarrow>
                     (let assistantMessage =
                            \<lparr>msg_id = generateId (assistant_now env) (assistant_random env),
                             content = answer resp,
                             timestamp = assistant_timestamp env, isUser = False,
                             msg_response = Some resp\<rparr>;
                          conv2 = conv1\<lparr>messages := messages conv1 @ [assistantMessage],
                                       updatedAt := assistant_updated env\<rparr>;
                          conv3 = (if length (messages conv2) = 2
                                      \<and> title conv2 = js ''New Conversation''
                                   then conv2\<lparr>title := first_title text\<rparr> else conv2);
                          s4 = saveConversations (write_back key conv3 s3)
                      in (s4\<lparr>fired := fired s4 @ [MessageCompleted messageId resp]\<rparr>,
                          Inr messageId)))))"

section \<open>Auxiliary notions for the proofs\<close>

text \<open>The bytes of an ASCII text, for writing streams down.\<close>

definition ascii :: "string \<Rightarrow> byte list" where
  "ascii s = map of_char s"

text \<open>
  \<open>feed\<close> is the \<open>data\<close> handler on text that is already decoded, and \<open>decoded\<close> the text
  the parser has appended to its buffer after all chunks: each chunk decoded by itself.
\<close>

definition map_attempt :: "(parser_state \<Rightarrow> parser_state) \<Rightarrow> attempt \<Rightarrow> attempt" where
  "map_attempt f a = (case a of Returned st \<Rightarrow> Returned (f st) | Threw st \<Rightarrow> Threw (f st))"

definition feed :: "bool \<Rightarrow> parser_state \<Rightarrow> jsstring \<Rightarrow> parser_state" where
  "feed cb st text =
     (let lines = split_lines (buffer st @ text)
      in foldl (process_line cb) (st\<lparr>buffer := last lines\<rparr>) (butlast lines))"

definition decoded :: "byte list list \<Rightarrow> jsstring" where
  "decoded chunks = concat (map toString chunks)"

text \<open>
  A state the decoder can be in: while a character is pending, the next byte must be a
  continuation byte.
\<close>

definition utf8_wf :: "utf8_state \<Rightarrow> bool" where
  "utf8_wf st = (pending st = 0 \<or> 0x80 \<le> lower st)"

text \<open>
  The document a line hands to the statements after \<open>JSON.parse\<close>, if it does: the line
  is a \<open>data:\<close> line, its payload (what follows the first six characters, trimmed) is not
  \<open>{}\<close>, and the payload parses. A \<open>data:\<close> line is malformed when its payload does not
  parse.
\<close>

definition document_of :: "jsstring \<Rightarrow> json option" where
  "document_of raw =
     (let line = trim (strip_cr raw) in
      if line = [] \<or> startsWith line (js ''event:'') \<or> \<not> startsWith line (js ''data:'') then None
      else (let dataStr = trim (substring_from 6 line) in
            if dataStr = js ''{}'' then None else JSON_parse dataStr))"

definition malformed_data_line :: "jsstring \<Rightarrow> bool" where
  "malformed_data_line raw =
     (let line = trim (strip_cr raw) in
      startsWith line (js ''data:'') \<and> JSON_parse (trim (substring_from 6 line)) = None)"




definition strings_of :: "json list \<Rightarrow> jsstring list" where
  "strings_of chs = concat (map (\<lambda>ch. case ch of JStr t \<Rightarrow> [t] | _ \<Rightarrow> []) chs)"

text \<open>
  Two relations between the text accumulated and the tokens passed on so far: the same
  length, and the same text.
\<close>

definition len_inv :: "parser_state \<Rightarrow> bool" where
  "len_inv st = (length (currentAnswer st) = length (concat (tokens st)))"

definition eq_inv :: "parser_state \<Rightarrow> bool" where
  "eq_inv st = (currentAnswer st = concat (tokens st))"

text \<open>
  A cumulative answer extends the text accumulated so far when it is taken and starts
  with that text. \<open>snapshots_extend\<close> says so of every cumulative answer the parser
  takes in a run with a callback; it follows the parser through the blocks, the
  documents and the lines.
\<close>

definition snapshot_extends :: "parser_state \<Rightarrow> json \<Rightarrow> bool" where
  "snapshot_extends st mb =
     (has_chunks mb \<or>
      (case property mb (js ''answer'') of
         Some (JStr t) \<Rightarrow>
           length t \<le> length (currentAnswer st)
           \<or> take (length (currentAnswer st)) t = currentAnswer st
       | _ \<Rightarrow> True))"

definition block_extends :: "parser_state \<Rightarrow> json \<Rightarrow> bool" where
  "block_extends st block =
     (if truthy block \<and> property block (js ''intended_usage'') = Some (JStr (js ''ask_text'')) then
        (case property block (js ''markdown_block'') of
           None \<Rightarrow> True
         | Some mb \<Rightarrow> if truthy mb then snapshot_extends st mb else True)
      else True)"

fun blocks_extend :: "parser_state \<Rightarrow> json list \<Rightarrow> bool" where
  "blocks_extend st [] = True"
| "blocks_extend st (block # blocks) =
     (block_extends st block \<and>
      (case process_block True st block of
         Threw st' \<Rightarrow> True
       | Returned st' \<Rightarrow> blocks_extend st' blocks))"

definition data_extends :: "parser_state \<Rightarrow> json \<Rightarrow> bool" where
  "data_extends st data =
     (if data = JNull then True
      else if lastEvent st \<noteq> [] \<and> lastEvent st \<noteq> js ''message'' then True
      else (case property data (js ''blocks'') of
              Some (JArr blocks) \<Rightarrow> blocks_extend (read_metadata st data) blocks
            | _ \<Rightarrow> True))"

definition line_extends :: "parser_state \<Rightarrow> jsstring \<Rightarrow> bool" where
  "line_extends st raw =
     (case document_of raw of None \<Rightarrow> True | Some data \<Rightarrow> data_extends st data)"

fun lines_extend :: "parser_state \<Rightarrow> jsstring list \<Rightarrow> bool" where
  "lines_extend st [] = True"
| "lines_extend st (l # ls) = (line_extends st l \<and> lines_extend (process_line True st l) ls)"

definition snapshots_extend :: "byte list list \<Rightarrow> bool" where
  "snapshots_extend chunks = lines_extend initial (butlast (split_lines (decoded chunks)))"

text \<open>
  For the service: sending one more message to a conversation, as a step of a sequence
  of requests; and the store and the stored snapshot holding the same conversations.
\<close>

definition send_to :: "jsstring \<Rightarrow> service \<Rightarrow> send_env \<times> jsstring \<Rightarrow> service" where
  "send_to cid s req = fst (sendMessage (fst req) (snd req) (Some cid) s)"

definition in_sync :: "service \<Rightarrow> bool" where
  "in_sync s = (storage s = Some (map snd (conversations s)))"

text \<open>
  Data for the examples: a signed-in desktop service with nothing stored; the readings
  of the environment when every clock read of an operation gives \<open>t\<close> (and \<open>t'\<close> after
  the exchange); an exchange that fails and one that succeeds; a service holding two
  conversations, \<open>a\<close> inserted before \<open>b\<close> and updated after it.
\<close>

definition signed_in :: service where
  "signed_in = \<lparr>isAuthenticated = True, isWeb = False, conversations = [], storage = None,
                 fired = []\<rparr>"

definition created_at :: "int \<Rightarrow> create_env" where
  "created_at t = \<lparr>id_now = t, id_random = js ''x'', created_now = t, updated_now = t\<rparr>"

definition send_at :: "int \<Rightarrow> int \<Rightarrow> jsstring list \<times> (jsstring + response) \<Rightarrow> send_env" where
  "send_at t t' ex =
     \<lparr>message_now = t, message_random = js ''m'', fresh = created_at t,
      user_timestamp = t, user_updated = t, exchange = ex,
      assistant_now = t', assistant_random = js ''a'',
      assistant_timestamp = t', assistant_updated = t'\<rparr>"

definition offline :: "jsstring list \<times> (jsstring + response)" where
  "offline = ([], Inl (js ''offline''))"

definition hello :: "jsstring list \<times> (jsstring + response)" where
  "hello = ([js ''He'', js ''llo''],
            Inr \<lparr>success = True, answer = js ''Hello'', resp_threadUrlSlug = JStr [],
                 resp_readWriteToken = JStr [], fullResponse = 5\<rparr>)"

definition two_conversations :: service where
  "two_conversations =
     signed_in\<lparr>conversations :=
       [(js ''a'', \<lparr>conv_id = js ''a'', title = js ''New Conversation'', messages = [],
                    createdAt = 1, updatedAt = 5\<rparr>),
        (js ''b'', \<lparr>conv_id = js ''b'', title = js ''New Conversation'', messages = [],
                    createdAt = 2, updatedAt = 2\<rparr>)]\<rparr>"

section \<open>Properties of the stream parser\<close>

subsection \<open>Lines\<close>

lemma split_lines_nonempty: "split_lines s \<noteq> []"
  by (induction s) (auto split: list.splits)

lemma split_lines_append:
  "split_lines (a @ b) = butlast (split_lines a) @ split_lines (last (split_lines a) @ b)"
proof (induction a)
  case Nil
  show ?case by simp
next
  case (Cons c a)
  obtain l ls where sa: "split_lines a = l # ls"
    using split_lines_nonempty [of a] by (cases "split_lines a") auto
  show ?case
  proof (cases "c = LF")
    case True
    then show ?thesis using Cons sa by simp
  next
    case False
    show ?thesis
    proof (cases ls)
      case Nil
      then show ?thesis using Cons sa False by simp
    next
      case (Cons l' ls')
      then show ?thesis using Cons.IH sa False by simp
    qed
  qed
qed

lemma split_lines_no_LF: "LF \<notin> set s \<Longrightarrow> split_lines s = [s]"
  by (induction s) auto

lemma split_lines_line: "LF \<notin> set l \<Longrightarrow> split_lines (l @ LF # b) = l # split_lines b"
  by (induction l) auto

lemma in_split_lines_no_LF: "l \<in> set (split_lines s) \<Longrightarrow> LF \<notin> set l"
proof (induction s arbitrary: l)
  case Nil
  then show ?case by simp
next
  case (Cons c s)
  obtain l0 ls where sa: "split_lines s = l0 # ls"
    using split_lines_nonempty [of s] by (cases "split_lines s") auto
  show ?case
  proof (cases "c = LF")
    case True
    then show ?thesis using Cons by auto
  next
    case False
    then show ?thesis using Cons sa by auto
  qed
qed


lemma process_chunks_buffer:
  "process_chunks cb (st\<lparr>buffer := b\<rparr>) chs = (process_chunks cb st chs)\<lparr>buffer := b\<rparr>"
proof (induction chs arbitrary: st)
  case Nil
  show ?case by simp
next
  case (Cons ch chs)
  show ?case
  proof (cases ch)
    case (JStr t)
    have "(emit cb t (st\<lparr>buffer := b\<rparr>))\<lparr>currentAnswer := currentAnswer st @ t\<rparr>
          = ((emit cb t st)\<lparr>currentAnswer := currentAnswer st @ t\<rparr>)\<lparr>buffer := b\<rparr>"
      by (simp add: emit_def)
    then show ?thesis using JStr Cons.IH by simp
  qed (simp_all add: Cons.IH)
qed

lemma process_markdown_buffer:
  "process_markdown cb (st\<lparr>buffer := b\<rparr>) mb
   = map_attempt (\<lambda>s. s\<lparr>buffer := b\<rparr>) (process_markdown cb st mb)"
  by (simp add: process_markdown_def map_attempt_def process_chunks_buffer emit_def
           split: option.splits json.splits)

lemma process_block_buffer:
  "process_block cb (st\<lparr>buffer := b\<rparr>) block
   = map_attempt (\<lambda>s. s\<lparr>buffer := b\<rparr>) (process_block cb st block)"
  by (simp add: process_block_def process_markdown_buffer split: option.splits)
     (simp add: map_attempt_def)

lemma process_blocks_buffer:
  "process_blocks cb (st\<lparr>buffer := b\<rparr>) blocks
   = map_attempt (\<lambda>s. s\<lparr>buffer := b\<rparr>) (process_blocks cb st blocks)"
proof (induction blocks arbitrary: st)
  case Nil
  show ?case by (simp add: map_attempt_def)
next
  case (Cons block blocks)
  show ?case
    by (cases "process_block cb st block")
       (simp_all add: process_block_buffer Cons.IH map_attempt_def)
qed

lemma read_metadata_buffer:
  "read_metadata (st\<lparr>buffer := b\<rparr>) data = (read_metadata st data)\<lparr>buffer := b\<rparr>"
  by (simp add: read_metadata_def Let_def split: option.splits)

lemma process_data_buffer:
  "process_data cb (st\<lparr>buffer := b\<rparr>) data
   = map_attempt (\<lambda>s. s\<lparr>buffer := b\<rparr>) (process_data cb st data)"
  by (simp add: process_data_def Let_def read_metadata_buffer process_blocks_buffer
           split: option.splits json.splits)
     (simp add: map_attempt_def)

lemma state_of_map_attempt: "state_of (map_attempt f a) = f (state_of a)"
  by (cases a) (simp_all add: state_of_def map_attempt_def)

lemma process_line_buffer:
  "process_line cb (st\<lparr>buffer := b\<rparr>) raw = (process_line cb st raw)\<lparr>buffer := b\<rparr>"
  by (simp add: process_line_def Let_def process_data_buffer state_of_map_attempt
           split: option.splits)

lemma process_lines_buffer:
  "foldl (process_line cb) (st\<lparr>buffer := b\<rparr>) ls = (foldl (process_line cb) st ls)\<lparr>buffer := b\<rparr>"
  by (induction ls arbitrary: st) (simp_all add: process_line_buffer)

lemma feed_alt:
  "feed cb st text =
     (foldl (process_line cb) st (butlast (split_lines (buffer st @ text))))
       \<lparr>buffer := last (split_lines (buffer st @ text))\<rparr>"
  by (simp add: feed_def Let_def process_lines_buffer)

lemma feed_feed: "feed cb (feed cb st t1) t2 = feed cb st (t1 @ t2)"
proof -
  let ?l1 = "split_lines (buffer st @ t1)"
  let ?l2 = "split_lines (last ?l1 @ t2)"
  have sp: "split_lines (buffer st @ t1 @ t2) = butlast ?l1 @ ?l2"
    using split_lines_append [of "buffer st @ t1" t2] by simp
  have ne: "?l2 \<noteq> []" by (rule split_lines_nonempty)
  have b1: "buffer (feed cb st t1) = last ?l1" by (simp add: feed_alt)
  show ?thesis
    by (simp add: feed_alt [of cb "feed cb st t1"] b1)
       (simp add: feed_alt [of cb st] sp ne butlast_append process_lines_buffer)
qed

lemma feed_empty: "LF \<notin> set (buffer st) \<Longrightarrow> feed cb st [] = st"
  by (simp add: feed_alt split_lines_no_LF)

lemma feed_buffer_no_LF: "LF \<notin> set (buffer (feed cb st text))"
proof -
  have "last (split_lines (buffer st @ text)) \<in> set (split_lines (buffer st @ text))"
    by (simp add: split_lines_nonempty)
  then show ?thesis by (simp add: feed_alt in_split_lines_no_LF)
qed

lemma on_data_feed: "on_data cb st chunk = feed cb st (toString chunk)"
  by (simp add: on_data_def feed_def)

lemma foldl_on_data_feed:
  "LF \<notin> set (buffer st) \<Longrightarrow> foldl (on_data cb) st chunks = feed cb st (decoded chunks)"
proof (induction chunks arbitrary: st)
  case Nil
  then show ?case by (simp add: decoded_def feed_empty)
next
  case (Cons c cs)
  have step: "on_data cb st c = feed cb st (toString c)"
    by (rule on_data_feed)
  have "foldl (on_data cb) (on_data cb st c) cs = feed cb (on_data cb st c) (decoded cs)"
    by (rule Cons.IH) (simp add: step feed_buffer_no_LF)
  then show ?case by (simp add: step feed_feed decoded_def)
qed

lemma run_chunks_decoded: "run_chunks cb chunks = feed cb initial (decoded chunks)"
  by (simp add: run_chunks_def foldl_on_data_feed initial_def)

subsection \<open>Content blocks\<close>

lemma process_chunks_explicit:
  "process_chunks True st chs
   = st\<lparr>currentAnswer := currentAnswer st @ concat (strings_of chs),
        tokens := tokens st @ strings_of chs\<rparr>"
proof (induction chs arbitrary: st)
  case Nil
  show ?case by (simp add: strings_of_def)
next
  case (Cons ch chs)
  show ?case
    by (cases ch) (simp_all add: Cons.IH strings_of_def emit_def)
qed

lemma property_Some_truthy: "property v k = Some x \<Longrightarrow> truthy v"
  by (cases v) (simp_all add: property_def)

text \<open>
  Claim C2. A block marked \<open>ask_text\<close> whose markdown block has no chunk list (none, an
  empty one, or something that is not an array) but a cumulative answer string \<open>a\<close>
  longer than the text accumulated so far, of length \<open>K\<close>, makes the parser pass exactly
  one token to the callback, the part of \<open>a\<close> from position \<open>K\<close> on, and take \<open>a\<close> as the
  accumulated text. Nothing of the first \<open>K\<close> characters is passed again. In a run with
  a callback \<open>K\<close> is also the total length of the tokens passed so far (\<open>len_inv_run\<close>
  below).
\<close>

theorem answer_fallback_emits_suffix:
  assumes "property block (js ''intended_usage'') = Some (JStr (js ''ask_text''))"
    and "property block (js ''markdown_block'') = Some mb"
    and "\<not> has_chunks mb"
    and "property mb (js ''answer'') = Some (JStr a)"
    and "length (currentAnswer st) < length a"
  shows "process_block True st block
         = Returned (st\<lparr>tokens := tokens st @ [drop (length (currentAnswer st)) a],
                         currentAnswer := a\<rparr>)"
proof -
  have tb: "truthy block" using assms(1) by (rule property_Some_truthy)
  have tm: "truthy mb" using assms(4) by (rule property_Some_truthy)
  have ta: "truthy (JStr a)" using assms(5) by auto
  have lg: "length_gt (JStr a) (length (currentAnswer st))"
    using assms(5) by (simp add: length_gt_def)
  have "process_markdown True st mb
        = Returned (st\<lparr>tokens := tokens st @ [drop (length (currentAnswer st)) a],
                        currentAnswer := a\<rparr>)"
    using assms(3,4) ta lg
    by (simp add: process_markdown_def emit_def substring_from_def)
  then show ?thesis using assms(1,2) tb tm by (simp add: process_block_def)
qed

theorem answer_fallback_emits_suffix_witness:
  "process_block True (initial\<lparr>currentAnswer := js ''He'', tokens := [js ''He'']\<rparr>)
     (JObj [(js ''intended_usage'', JStr (js ''ask_text'')),
            (js ''markdown_block'', JObj [(js ''answer'', JStr (js ''Hello''))])])
   = Returned (initial\<lparr>currentAnswer := js ''Hello'', tokens := [js ''He'', js ''llo'']\<rparr>)"
proof -
  let ?mb = "JObj [(js ''answer'', JStr (js ''Hello''))]"
  let ?block = "JObj [(js ''intended_usage'', JStr (js ''ask_text'')), (js ''markdown_block'', ?mb)]"
  let ?st = "initial\<lparr>currentAnswer := js ''He'', tokens := [js ''He'']\<rparr>"
  have 1: "property ?block (js ''intended_usage'') = Some (JStr (js ''ask_text''))"
    by (simp add: property_def js_def)
  have 2: "property ?block (js ''markdown_block'') = Some ?mb"
    by (simp add: property_def js_def)
  have 3: "\<not> has_chunks ?mb"
    by (simp add: has_chunks_def property_def js_def)
  have 4: "property ?mb (js ''answer'') = Some (JStr (js ''Hello''))"
    by (simp add: property_def)
  have 5: "length (currentAnswer ?st) < length (js ''Hello'')"
    by (simp add: js_def)
  show ?thesis
    using answer_fallback_emits_suffix [OF 1 2 3 4 5] by (simp add: js_def)
qed

subsection \<open>The accumulated text and the tokens\<close>

lemma len_inv_chunks: "len_inv st \<Longrightarrow> len_inv (process_chunks True st chs)"
  by (simp add: len_inv_def process_chunks_explicit)

lemma len_inv_markdown:
  assumes "len_inv st"
  shows "len_inv (state_of (process_markdown True st mb))"
proof (cases "has_chunks mb")
  case True
  then show ?thesis using assms
    by (simp add: process_markdown_def state_of_def len_inv_chunks)
next
  case False
  show ?thesis
  proof (cases "property mb (js ''answer'')")
    case None
    then show ?thesis using False assms by (simp add: process_markdown_def state_of_def)
  next
    case (Some a)
    show ?thesis
    proof (cases "truthy a \<and> length_gt a (length (currentAnswer st))")
      case taken: True
      show ?thesis
      proof (cases a)
        case (JStr t)
        then have "length (currentAnswer st) < length t"
          using taken by (simp add: length_gt_def)
        then show ?thesis using False Some taken JStr assms
          by (simp add: process_markdown_def state_of_def len_inv_def emit_def substring_from_def)
      qed (use False Some taken assms in \<open>simp_all add: process_markdown_def state_of_def\<close>)
    next
      case False
      then show ?thesis using \<open>\<not> has_chunks mb\<close> Some assms
        by (auto simp add: process_markdown_def state_of_def)
    qed
  qed
qed

lemma len_inv_block: "len_inv st \<Longrightarrow> len_inv (state_of (process_block True st block))"
  using len_inv_markdown [of st]
  by (auto simp: process_block_def state_of_def split: option.splits)

lemma len_inv_blocks: "len_inv st \<Longrightarrow> len_inv (state_of (process_blocks True st blocks))"
proof (induction blocks arbitrary: st)
  case Nil
  then show ?case by (simp add: state_of_def)
next
  case (Cons block blocks)
  show ?case
  proof (cases "process_block True st block")
    case (Returned st')
    then have "len_inv st'" using len_inv_block [OF Cons.prems, of block] by (simp add: state_of_def)
    then show ?thesis using Returned Cons.IH by simp
  next
    case (Threw st')
    then have "len_inv st'" using len_inv_block [OF Cons.prems, of block] by (simp add: state_of_def)
    then show ?thesis using Threw by (simp add: state_of_def)
  qed
qed

lemma len_inv_metadata: "len_inv st \<Longrightarrow> len_inv (read_metadata st data)"
  by (simp add: read_metadata_def len_inv_def Let_def split: option.splits)

lemma len_inv_data: "len_inv st \<Longrightarrow> len_inv (state_of (process_data True st data))"
  using len_inv_blocks [OF len_inv_metadata, of st data]
  by (auto simp: process_data_def Let_def state_of_def len_inv_metadata
        split: option.splits json.splits)

lemma len_inv_line: "len_inv st \<Longrightarrow> len_inv (process_line True st raw)"
  using len_inv_data [of st]
  by (auto simp: process_line_def Let_def len_inv_def split: option.splits)

lemma len_inv_lines: "len_inv st \<Longrightarrow> len_inv (foldl (process_line True) st ls)"
  by (induction ls arbitrary: st) (simp_all add: len_inv_line)

lemma len_inv_run: "len_inv (run_chunks True chunks)"
proof -
  have "len_inv initial" by (simp add: len_inv_def initial_def)
  then have "len_inv (foldl (process_line True) initial
               (butlast (split_lines (buffer initial @ decoded chunks))))"
    by (rule len_inv_lines)
  then show ?thesis by (simp add: run_chunks_decoded feed_alt len_inv_def)
qed

lemma process_line_document:
  "process_line cb st raw =
     (case document_of raw of
        Some data \<Rightarrow> state_of (process_data cb st data)
      | None \<Rightarrow>
          if trim (strip_cr raw) \<noteq> [] \<and> startsWith (trim (strip_cr raw)) (js ''event:'')
          then st\<lparr>lastEvent := trim (substring_from 6 (trim (strip_cr raw)))\<rparr>
          else st)"
  by (simp add: process_line_def document_of_def Let_def split: option.splits)

lemma eq_inv_chunks: "eq_inv st \<Longrightarrow> eq_inv (process_chunks True st chs)"
  by (simp add: eq_inv_def process_chunks_explicit)

lemma eq_inv_markdown:
  assumes "eq_inv st" and "snapshot_extends st mb"
  shows "eq_inv (state_of (process_markdown True st mb))"
proof (cases "has_chunks mb")
  case True
  then show ?thesis using assms(1)
    by (simp add: process_markdown_def state_of_def eq_inv_chunks)
next
  case False
  show ?thesis
  proof (cases "property mb (js ''answer'')")
    case None
    then show ?thesis using False assms(1) by (simp add: process_markdown_def state_of_def)
  next
    case (Some a)
    show ?thesis
    proof (cases "truthy a \<and> length_gt a (length (currentAnswer st))")
      case taken: True
      show ?thesis
      proof (cases a)
        case (JStr t)
        then have longer: "length (currentAnswer st) < length t"
          using taken by (simp add: length_gt_def)
        then have pre: "take (length (currentAnswer st)) t = currentAnswer st"
          using assms(2) False Some JStr by (simp add: snapshot_extends_def)
        have "t = take (length (currentAnswer st)) t @ drop (length (currentAnswer st)) t"
          by simp
        then have "t = concat (tokens st) @ drop (length (currentAnswer st)) t"
          using pre assms(1) by (simp add: eq_inv_def)
        then show ?thesis using False Some taken JStr
          by (simp add: process_markdown_def state_of_def eq_inv_def emit_def substring_from_def)
      qed (use False Some taken assms(1) in \<open>simp_all add: process_markdown_def state_of_def\<close>)
    next
      case False
      then show ?thesis using \<open>\<not> has_chunks mb\<close> Some assms(1)
        by (auto simp add: process_markdown_def state_of_def)
    qed
  qed
qed

lemma eq_inv_block:
  assumes "eq_inv st" and "block_extends st block"
  shows "eq_inv (state_of (process_block True st block))"
proof (cases "truthy block \<and> property block (js ''intended_usage'') = Some (JStr (js ''ask_text''))")
  case True
  show ?thesis
  proof (cases "property block (js ''markdown_block'')")
    case None
    then show ?thesis using True assms(1) by (simp add: process_block_def state_of_def)
  next
    case (Some mb)
    show ?thesis
    proof (cases "truthy mb")
      case tm: True
      then have "snapshot_extends st mb"
        using assms(2) True Some by (simp add: block_extends_def)
      then show ?thesis using eq_inv_markdown [OF assms(1)] True Some tm
        by (simp add: process_block_def)
    next
      case False
      then show ?thesis using True Some assms(1) by (simp add: process_block_def state_of_def)
    qed
  qed
next
  case False
  then show ?thesis using assms(1) by (auto simp add: process_block_def state_of_def)
qed

lemma eq_inv_blocks:
  "eq_inv st \<Longrightarrow> blocks_extend st blocks \<Longrightarrow> eq_inv (state_of (process_blocks True st blocks))"
proof (induction blocks arbitrary: st)
  case Nil
  then show ?case by (simp add: state_of_def)
next
  case (Cons block blocks)
  have be: "block_extends st block" using Cons.prems(2) by simp
  show ?case
  proof (cases "process_block True st block")
    case (Returned st')
    then have "eq_inv st'" using eq_inv_block [OF Cons.prems(1) be] by (simp add: state_of_def)
    moreover have "blocks_extend st' blocks" using Cons.prems(2) Returned by simp
    ultimately show ?thesis using Returned Cons.IH by simp
  next
    case (Threw st')
    then have "eq_inv st'" using eq_inv_block [OF Cons.prems(1) be] by (simp add: state_of_def)
    then show ?thesis using Threw by (simp add: state_of_def)
  qed
qed

lemma eq_inv_metadata: "eq_inv st \<Longrightarrow> eq_inv (read_metadata st data)"
  by (simp add: read_metadata_def eq_inv_def Let_def split: option.splits)

lemma eq_inv_data:
  assumes "eq_inv st" and "data_extends st data"
  shows "eq_inv (state_of (process_data True st data))"
proof (cases "data = JNull \<or> (lastEvent st \<noteq> [] \<and> lastEvent st \<noteq> js ''message'')")
  case True
  then show ?thesis using assms(1) eq_inv_metadata [OF assms(1), of data]
    by (auto simp add: process_data_def state_of_def Let_def)
next
  case False
  show ?thesis
  proof (cases "\<exists>blocks. property data (js ''blocks'') = Some (JArr blocks)")
    case True
    then obtain blocks where b: "property data (js ''blocks'') = Some (JArr blocks)" by blast
    then have "blocks_extend (read_metadata st data) blocks"
      using assms(2) False by (auto simp add: data_extends_def)
    then have "eq_inv (state_of (process_blocks True (read_metadata st data) blocks))"
      using eq_inv_blocks eq_inv_metadata [OF assms(1)] by blast
    then show ?thesis using False b by (auto simp add: process_data_def Let_def)
  next
    case nb: False
    then show ?thesis using False eq_inv_metadata [OF assms(1), of data]
      by (auto simp add: process_data_def state_of_def Let_def split: option.splits json.splits)
  qed
qed

lemma eq_inv_line:
  assumes "eq_inv st" and "line_extends st raw"
  shows "eq_inv (process_line True st raw)"
proof (cases "document_of raw")
  case None
  then show ?thesis using assms(1) by (simp add: process_line_document eq_inv_def)
next
  case (Some data)
  then have "data_extends st data" using assms(2) by (simp add: line_extends_def)
  then show ?thesis using Some eq_inv_data [OF assms(1)] by (simp add: process_line_document)
qed

lemma eq_inv_lines:
  "eq_inv st \<Longrightarrow> lines_extend st ls \<Longrightarrow> eq_inv (foldl (process_line True) st ls)"
  by (induction ls arbitrary: st) (simp_all add: eq_inv_line)

lemma eq_inv_run: "snapshots_extend chunks \<Longrightarrow> eq_inv (run_chunks True chunks)"
proof -
  assume "snapshots_extend chunks"
  then have "lines_extend initial (butlast (split_lines (buffer initial @ decoded chunks)))"
    by (simp add: snapshots_extend_def initial_def)
  moreover have "eq_inv initial" by (simp add: eq_inv_def initial_def)
  ultimately have "eq_inv (foldl (process_line True) initial
               (butlast (split_lines (buffer initial @ decoded chunks))))"
    by (simp add: eq_inv_lines)
  then show ?thesis by (simp add: run_chunks_decoded feed_alt eq_inv_def)
qed

text \<open>
  Claim C10, as amended. With a callback, the answer of the terminal response is as long
  as the tokens passed to the callback taken together, and so is its length field; the
  answer is their concatenation whenever every cumulative answer the parser took
  started with the text accumulated before it.
\<close>

theorem answer_length_and_concat:
  "processStreamingResponse True chunks End = (toks, Inr r) \<Longrightarrow>
     length (answer r) = length (concat toks)
     \<and> fullResponse r = length (concat toks)
     \<and> (snapshots_extend chunks \<longrightarrow> answer r = concat toks)"
  using len_inv_run [of chunks] eq_inv_run [of chunks]
  by (auto simp add: processStreamingResponse_def Let_def settle_def on_end_def len_inv_def eq_inv_def)


theorem answer_length_and_concat_witness:
  \<open>processStreamingResponse True
      [ascii ''data: {"blocks":[{"intended_usage":"ask_text","markdown_block":{"chunks":["He","llo"]}}]}''
       @ [0x0A]
       @ ascii ''data: {"blocks":[{"intended_usage":"ask_text","markdown_block":{"answer":"Hello!"}}]}''
       @ [0x0A]] End
    = ([js ''He'', js ''llo'', js ''!''],
       Inr \<lparr>success = True, answer = js ''Hello!'', resp_threadUrlSlug = JStr [],
            resp_readWriteToken = JStr [], fullResponse = 6\<rparr>)
   \<and> snapshots_extend
      [ascii ''data: {"blocks":[{"intended_usage":"ask_text","markdown_block":{"chunks":["He","llo"]}}]}''
       @ [0x0A]
       @ ascii ''data: {"blocks":[{"intended_usage":"ask_text","markdown_block":{"answer":"Hello!"}}]}''
       @ [0x0A]]
   \<and> js ''Hello!'' = concat [js ''He'', js ''llo'', js ''!'']\<close>
proof -
  let ?chunks =
    \<open>[ascii ''data: {"blocks":[{"intended_usage":"ask_text","markdown_block":{"chunks":["He","llo"]}}]}''
      @ [0x0A]
      @ ascii ''data: {"blocks":[{"intended_usage":"ask_text","markdown_block":{"answer":"Hello!"}}]}''
      @ [0x0A :: byte]]\<close>
  have run: "processStreamingResponse True ?chunks End
    = ([js ''He'', js ''llo'', js ''!''],
       Inr \<lparr>success = True, answer = js ''Hello!'', resp_threadUrlSlug = JStr [],
            resp_readWriteToken = JStr [], fullResponse = 6\<rparr>)"
    by code_simp
  have ext: "snapshots_extend ?chunks"
    by code_simp
  show ?thesis
    using answer_length_and_concat [OF run] ext run by simp
qed

text \<open>
  The claim as stated fails when a cumulative answer does not start with the text
  accumulated before it: after the token \<open>abc\<close>, the cumulative answer \<open>xyzw\<close> passes the
  token \<open>w\<close> and becomes the answer.
\<close>

theorem answer_differs_from_tokens:
  \<open>processStreamingResponse True
      [ascii ''data: {"blocks":[{"intended_usage":"ask_text","markdown_block":{"chunks":["abc"]}}]}''
       @ [0x0A]
       @ ascii ''data: {"blocks":[{"intended_usage":"ask_text","markdown_block":{"answer":"xyzw"}}]}''
       @ [0x0A]] End
    = ([js ''abc'', js ''w''],
       Inr \<lparr>success = True, answer = js ''xyzw'', resp_threadUrlSlug = JStr [],
            resp_readWriteToken = JStr [], fullResponse = 4\<rparr>)
   \<and> js ''xyzw'' \<noteq> concat [js ''abc'', js ''w'']\<close>
  by code_simp

subsection \<open>Malformed lines\<close>

lemma data_not_event: "startsWith line (js ''data:'') \<Longrightarrow> \<not> startsWith line (js ''event:'')"
  by (cases line) (auto simp add: startsWith_def js_def)

lemma malformed_no_document: "malformed_data_line raw \<Longrightarrow> document_of raw = None"
  by (auto simp add: malformed_data_line_def document_of_def Let_def)

lemma malformed_line_ignored: "malformed_data_line raw \<Longrightarrow> process_line cb st raw = st"
  using malformed_no_document [of raw] data_not_event [of "trim (strip_cr raw)"]
  by (auto simp add: process_line_document malformed_data_line_def Let_def)

lemma lines_without:
  assumes "pre = [] \<or> last pre = LF" and "LF \<notin> set bad"
  shows "split_lines (pre @ bad @ [LF] @ post) = butlast (split_lines pre) @ bad # split_lines post"
    and "split_lines (pre @ post) = butlast (split_lines pre) @ split_lines post"
proof -
  have e: "last (split_lines pre) = []"
  proof (cases "pre = []")
    case True
    then show ?thesis by simp
  next
    case False
    then have "pre = butlast pre @ [LF]" using assms(1) by (metis append_butlast_last_id)
    then have "split_lines pre
               = butlast (split_lines (butlast pre)) @ split_lines (last (split_lines (butlast pre)) @ [LF])"
      using split_lines_append [of "butlast pre" "[LF]"] by simp
    moreover have "LF \<notin> set (last (split_lines (butlast pre)))"
      using in_split_lines_no_LF [of _ "butlast pre"] split_lines_nonempty [of "butlast pre"]
      by simp
    then have "split_lines (last (split_lines (butlast pre)) @ [LF])
               = [last (split_lines (butlast pre)), []]"
      using split_lines_line [of "last (split_lines (butlast pre))" "[]"] by simp
    ultimately show ?thesis by simp
  qed
  show "split_lines (pre @ bad @ [LF] @ post) = butlast (split_lines pre) @ bad # split_lines post"
    using split_lines_append [of pre "bad @ [LF] @ post"] e split_lines_line [OF assms(2), of post]
    by simp
  show "split_lines (pre @ post) = butlast (split_lines pre) @ split_lines post"
    using split_lines_append [of pre post] e by simp
qed

lemma malformed_line_text:
  assumes "pre = [] \<or> last pre = LF" and "LF \<notin> set bad" and "malformed_data_line bad"
  shows "feed cb initial (pre @ bad @ [LF] @ post) = feed cb initial (pre @ post)"
proof -
  have ne: "split_lines post \<noteq> []" by (rule split_lines_nonempty)
  show ?thesis
    using lines_without [OF assms(1,2), of post] ne
    by (simp add: feed_alt initial_def butlast_append malformed_line_ignored [OF assms(3)])
qed



subsection \<open>Metadata and the event name\<close>












subsection \<open>The end of the stream\<close>




subsection \<open>Chunk boundaries\<close>

text \<open>
  The run depends on the chunks only through the text they decode to, chunk by chunk.
  Bytes below \<open>0x80\<close> decode one by one, so a stream of such bytes gives the same run
  however it is cut.
\<close>

lemma same_text_same_run:
  "decoded chunks = decoded chunks' \<Longrightarrow>
   processStreamingResponse cb chunks c = processStreamingResponse cb chunks' c"
  by (simp add: processStreamingResponse_def run_chunks_decoded)

lemma utf8_decode_ascii:
  "\<forall>b \<in> set bs. b \<le> 0x7F \<Longrightarrow> utf8_decode utf8_init bs = map ucast bs"
  by (induction bs) (simp_all add: utf8_step_def utf8_lead_def utf8_init_def)

lemma decoded_ascii:
  "\<forall>b \<in> set (concat chunks). b \<le> 0x7F \<Longrightarrow> decoded chunks = map ucast (concat chunks)"
  by (induction chunks) (simp_all add: decoded_def toString_def utf8_decode_ascii)

lemma rechunk_ascii:
  assumes "concat chunks = concat chunks'" and "\<forall>b \<in> set (concat chunks). b \<le> 0x7F"
  shows "processStreamingResponse cb chunks c = processStreamingResponse cb chunks' c"
proof -
  have "decoded chunks = map ucast (concat chunks)"
    using assms(2) by (rule decoded_ascii)
  moreover have "decoded chunks' = map ucast (concat chunks')"
    using assms by (simp add: decoded_ascii)
  ultimately show ?thesis using assms(1) by (simp add: same_text_same_run)
qed

text \<open>
  A line feed is one byte and ends whatever character was pending, so the text decoded
  up to a line feed does not depend on what follows. Chunks that each end with a line
  feed therefore give the same run as their bytes in one chunk, and a malformed line
  inside one chunk can be taken out of the bytes.
\<close>

lemma utf8_lead_wf: "utf8_wf (snd (utf8_lead b))"
  by (simp add: utf8_lead_def utf8_wf_def utf8_init_def)

lemma utf8_step_wf: "utf8_wf (snd (utf8_step st b))"
  using utf8_lead_wf [of b]
  by (auto simp add: utf8_step_def utf8_wf_def utf8_init_def Let_def split: prod.splits)

lemma utf8_step_line_feed:
  "utf8_wf st \<Longrightarrow>
   utf8_step st 0x0A = ((if pending st = 0 then [] else [REPLACEMENT]) @ [LF], utf8_init)"
proof -
  assume wf: "utf8_wf st"
  have lead: "utf8_lead 0x0A = ([LF], utf8_init)"
    by (simp add: utf8_lead_def LF_def)
  show ?thesis
  proof (cases "pending st = 0")
    case True
    then show ?thesis by (simp add: utf8_step_def lead)
  next
    case False
    then have "0x80 \<le> lower st" using wf by (simp add: utf8_wf_def)
    moreover have "(0x0A :: byte) < 0x80" by simp
    ultimately have "\<not> lower st \<le> 0x0A"
      by (metis leD order_trans)
    then show ?thesis using False by (simp add: utf8_step_def lead)
  qed
qed

lemma utf8_decode_line_feed:
  "utf8_wf st \<Longrightarrow>
   utf8_decode st (x @ 0x0A # y) = utf8_decode st x @ LF # utf8_decode utf8_init y"
proof (induction x arbitrary: st)
  case Nil
  then show ?case by (simp add: utf8_step_line_feed)
next
  case (Cons b x)
  obtain out st' where s: "utf8_step st b = (out, st')" by (cases "utf8_step st b")
  then have "utf8_wf st'" using utf8_step_wf [of st b] by simp
  then show ?case using Cons.IH [of st'] s by simp
qed

lemma toString_line_feed: "toString (x @ 0x0A # y) = toString x @ LF # toString y"
  by (simp add: toString_def utf8_decode_line_feed utf8_wf_def utf8_init_def)

lemma toString_Nil: "toString [] = []"
  by (simp add: toString_def utf8_init_def)

lemma toString_ends_line_feed: "toString (x @ [0x0A]) = toString x @ [LF]"
  using toString_line_feed [of x "[]"] by (simp add: toString_Nil)

lemma decoded_line_chunks:
  "\<forall>c \<in> set chunks. c = [] \<or> last c = 0x0A \<Longrightarrow> decoded chunks = toString (concat chunks)"
proof (induction chunks)
  case Nil
  show ?case by (simp add: decoded_def toString_Nil)
next
  case (Cons c chunks)
  have ih: "concat (map toString chunks) = toString (concat chunks)"
    using Cons by (simp add: decoded_def)
  show ?case
  proof (cases "c = []")
    case True
    then show ?thesis using ih by (simp add: decoded_def toString_Nil)
  next
    case False
    then have "last c = 0x0A" using Cons.prems by simp
    then have cx: "c = butlast c @ [0x0A]" using False by (metis append_butlast_last_id)
    have "toString (butlast c @ [0x0A]) @ toString (concat chunks)
          = toString ((butlast c @ [0x0A]) @ concat chunks)"
      by (simp add: toString_ends_line_feed toString_line_feed toString_Nil)
    then have "toString c @ toString (concat chunks) = toString (c @ concat chunks)"
      using cx by simp
    then show ?thesis using ih by (simp add: decoded_def)
  qed
qed

lemma rechunk_at_line_feeds:
  assumes "\<forall>c \<in> set chunks. c = [] \<or> last c = 0x0A"
  shows "processStreamingResponse cb chunks c = processStreamingResponse cb [concat chunks] c"
proof -
  have "decoded chunks = decoded [concat chunks]"
    using decoded_line_chunks [OF assms] by (simp add: decoded_def)
  then show ?thesis by (rule same_text_same_run)
qed


lemma malformed_line_in_one_chunk:
  assumes "p = [] \<or> last p = 0x0A" and "LF \<notin> set (toString b)"
    and "malformed_data_line (toString b)"
  shows "processStreamingResponse cb [p @ b @ [0x0A] @ q] c
         = processStreamingResponse cb [p @ q] c"
proof -
  have pre: "toString p = [] \<or> last (toString p) = LF"
    and cut: "toString (p @ r) = toString p @ toString r" for r
  proof -
    show "toString p = [] \<or> last (toString p) = LF"
    proof (cases "p = []")
      case True
      then show ?thesis by (simp add: toString_Nil)
    next
      case False
      then have "p = butlast p @ [0x0A]" using assms(1) by (metis append_butlast_last_id)
      then have "toString p = toString (butlast p) @ [LF]"
        using toString_ends_line_feed [of "butlast p"] by simp
      then show ?thesis by simp
    qed
    show "toString (p @ r) = toString p @ toString r"
    proof (cases "p = []")
      case True
      then show ?thesis by (simp add: toString_Nil)
    next
      case False
      then have px: "p = butlast p @ [0x0A]" using assms(1) by (metis append_butlast_last_id)
      have "toString ((butlast p @ [0x0A]) @ r) = toString (butlast p @ [0x0A]) @ toString r"
        by (simp add: toString_ends_line_feed toString_line_feed toString_Nil)
      then show ?thesis using px by simp
    qed
  qed
  have "decoded [p @ b @ [0x0A] @ q] = toString p @ toString b @ [LF] @ toString q"
    using cut [of "b @ [0x0A] @ q"] toString_line_feed [of b q] by (simp add: decoded_def)
  moreover have "decoded [p @ q] = toString p @ toString q"
    using cut [of q] by (simp add: decoded_def)
  ultimately have "run_chunks cb [p @ b @ [0x0A] @ q] = run_chunks cb [p @ q]"
    using malformed_line_text [OF pre assms(2,3), of cb "toString q"]
    by (simp add: run_chunks_decoded)
  then show ?thesis by (simp add: processStreamingResponse_def)
qed

text \<open>
  Claim C1: every way of cutting the bytes of a stream into chunks, down to one byte
  per chunk, gives the same tokens and the same response. The code does not do this
  where a chunk boundary falls inside a character of several bytes, because each chunk
  is decoded by itself. The stream below carries the token \<open>U+00E9\<close> (bytes \<open>C3 A9\<close>): in
  one chunk the token arrives as sent; cut between the two bytes it arrives as two
  replacement characters, and the answer and its length change with it.
\<close>

theorem split_character_changes_tokens:
  \<open>processStreamingResponse True
      [ascii ''data: {"blocks":[{"intended_usage":"ask_text","markdown_block":{"chunks":["''
       @ [0xC3, 0xA9] @ ascii ''"]}}]}'' @ [0x0A, 0x0A]] End
    = ([[0xE9]],
       Inr \<lparr>success = True, answer = [0xE9], resp_threadUrlSlug = JStr [],
            resp_readWriteToken = JStr [], fullResponse = 1\<rparr>)
   \<and> processStreamingResponse True
      [ascii ''data: {"blocks":[{"intended_usage":"ask_text","markdown_block":{"chunks":["''
       @ [0xC3],
       [0xA9] @ ascii ''"]}}]}'' @ [0x0A, 0x0A]] End
    = ([[0xFFFD, 0xFFFD]],
       Inr \<lparr>success = True, answer = [0xFFFD, 0xFFFD], resp_threadUrlSlug = JStr [],
            resp_readWriteToken = JStr [], fullResponse = 2\<rparr>)\<close>
  by code_simp

section \<open>Properties of the conversation service\<close>

lemma digits36_nonempty: "digits36 n \<noteq> []"
  by (subst digits36.simps) simp

lemma generateId_nonempty: "generateId now random \<noteq> []"
  by (simp add: generateId_def toString36_def digits36_nonempty)

lemma map_of_update_same: "map_of (AList.update k v al) k = Some v"
  by (simp add: update_conv')

text \<open>
  Claim C6. A signed-in desktop service creates a conversation and is then asked to send
  a message to it; the client call throws. \<open>sendMessage\<close> fails with the client's error,
  and the conversation is still in the store with one message, the user's: the text
  given, \<open>isUser\<close> true, no response. It was appended before the client was called and
  is not taken back.
\<close>

theorem failed_exchange_keeps_user_message:
  assumes "isAuthenticated s" and "\<not> isWeb s"
    and "createConversation cenv title_arg s = (s1, conv)"
    and "snd (exchange env) = Inl err"
  shows "\<exists>s2. sendMessage env text (Some (conv_id conv)) s1 = (s2, Inl (ExchangeFailed err))
            \<and> getConversation (conv_id conv) s2
                = Some (conv\<lparr>messages := [\<lparr>msg_id = generateId (message_now env) (message_random env),
                                             content = text, timestamp = user_timestamp env,
                                             isUser = True, msg_response = None\<rparr>],
                              updatedAt := user_updated env\<rparr>)"
proof -
  have id: "conv_id conv = generateId (id_now cenv) (id_random cenv)"
    and msgs: "messages conv = []"
    and s1: "s1 = saveConversations (s\<lparr>conversations := AList.update (conv_id conv) conv (conversations s)\<rparr>)"
    using assms(3) by (auto simp add: createConversation_def Let_def)
  have ne: "conv_id conv \<noteq> []" using id by (simp add: generateId_nonempty)
  have look: "map_of (conversations s1) (conv_id conv) = Some conv"
    using s1 by (simp add: saveConversations_def map_of_update_same)
  have auth: "isAuthenticated s1" "\<not> isWeb s1"
    using assms(1,2) s1 by (simp_all add: saveConversations_def)
  have tg: "target env (Some (conv_id conv)) s1 = Inr (s1, conv_id conv, conv)"
    using ne look by (simp add: target_def)
  show ?thesis
    using auth tg assms(4) msgs
    by (simp add: sendMessage_def Let_def write_back_def getConversation_def map_of_update_same)
qed

theorem failed_exchange_keeps_user_message_witness:
  "map_option (\<lambda>c. map (\<lambda>m. (content m, isUser m, msg_response m)) (messages c))
     (getConversation (js ''5x'')
        (fst (sendMessage (send_at 7 9 offline) (js ''hi'') (Some (js ''5x''))
                (fst (createConversation (created_at 5) None signed_in)))))
   = Some [(js ''hi'', True, None)]"
proof -
  let ?cc = "createConversation (created_at 5) None signed_in"
  have cid: "conv_id (snd ?cc) = js ''5x''"
    by code_simp
  have 1: "isAuthenticated signed_in" and 2: "\<not> isWeb signed_in"
    by (simp_all add: signed_in_def)
  have 3: "?cc = (fst ?cc, snd ?cc)"
    by simp
  have 4: "snd (exchange (send_at 7 9 offline)) = Inl (js ''offline'')"
    by (simp add: send_at_def offline_def)
  show ?thesis
    using failed_exchange_keeps_user_message [OF 1 2 3 4, of "js ''hi''"] cid
    by auto
qed

subsection \<open>The keys of the store\<close>

text \<open>Every operation keeps each key of the store there once, as a \<open>Map\<close> does.\<close>

lemma keys_once_create:
  "distinct (map fst (conversations s)) \<Longrightarrow>
   distinct (map fst (conversations (fst (createConversation env title_arg s))))"
  by (simp add: createConversation_def Let_def saveConversations_def distinct_update)

lemma keys_once_delete:
  "distinct (map fst (conversations s)) \<Longrightarrow>
   distinct (map fst (conversations (deleteConversation cid s)))"
  by (simp add: deleteConversation_def saveConversations_def distinct_delete)

lemma keys_once_clear: "distinct (map fst (conversations (clearConversations s)))"
  by (simp add: clearConversations_def saveConversations_def)

lemma keys_once_send:
  "distinct (map fst (conversations s)) \<Longrightarrow>
   distinct (map fst (conversations (fst (sendMessage env text conversationId s))))"
  by (auto simp add: sendMessage_def Let_def target_def createConversation_def
        saveConversations_def write_back_def distinct_update
        split: option.splits sum.splits prod.splits if_splits)

subsection \<open>The title\<close>

lemma sendMessage_keeps_title:
  assumes "cid \<noteq> []" and "getConversation cid s = Some c" and "2 \<le> length (messages c)"
  shows "\<exists>c'. getConversation cid (fst (sendMessage env text (Some cid) s)) = Some c'
            \<and> title c' = title c \<and> 2 \<le> length (messages c')"
proof (cases "isAuthenticated s \<and> \<not> isWeb s")
  case False
  then show ?thesis using assms by (auto simp add: sendMessage_def)
next
  case True
  have tg: "target env (Some cid) s = Inr (s, cid, c)"
    using assms(1,2) by (simp add: target_def getConversation_def)
  show ?thesis
  proof (cases "snd (exchange env)")
    case (Inl err)
    then show ?thesis using True tg assms(3)
      by (simp add: sendMessage_def Let_def write_back_def getConversation_def map_of_update_same)
  next
    case (Inr resp)
    then show ?thesis using True tg assms(3)
      by (auto simp add: sendMessage_def Let_def write_back_def getConversation_def
            map_of_update_same saveConversations_def)
  qed
qed

lemma later_sends_keep_title:
  assumes "cid \<noteq> []"
  shows "getConversation cid s = Some c \<Longrightarrow> 2 \<le> length (messages c) \<Longrightarrow>
         \<exists>c'. getConversation cid (foldl (send_to cid) s later) = Some c'
              \<and> title c' = title c \<and> 2 \<le> length (messages c')"
proof (induction later arbitrary: s c)
  case Nil
  then show ?case by simp
next
  case (Cons req later)
  obtain c1 where c1: "getConversation cid (send_to cid s req) = Some c1"
      "title c1 = title c" "2 \<le> length (messages c1)"
    using sendMessage_keeps_title [OF assms Cons.prems, of "fst req" "snd req"]
    by (auto simp add: send_to_def)
  show ?case using Cons.IH [OF c1(1) c1(3)] c1(2) by simp
qed

text \<open>
  Claim C7. A conversation with no message and the title \<open>New Conversation\<close> gets a
  message and the exchange succeeds. It then has two messages, the user's and the
  assistant's, and its title is the user's text, cut to its first 50 characters
  followed by \<open>...\<close> when it is longer than 50. Whatever messages are sent to the
  conversation afterwards, and however their exchanges end, the title stays.
\<close>

theorem title_from_first_exchange:
  assumes "isAuthenticated s" and "\<not> isWeb s" and "cid \<noteq> []"
    and "getConversation cid s = Some c"
    and "messages c = []" and "title c = js ''New Conversation''"
    and "snd (exchange env) = Inr resp"
  shows "\<exists>c'. getConversation cid (fst (sendMessage env text (Some cid) s)) = Some c'
            \<and> map isUser (messages c') = [True, False]
            \<and> map content (messages c') = [text, answer resp]
            \<and> title c' = (if 50 < length text then take 50 text @ js ''...'' else text)
            \<and> (\<forall>later. \<exists>c''. getConversation cid
                     (foldl (send_to cid) (fst (sendMessage env text (Some cid) s)) later) = Some c''
                   \<and> title c'' = title c')"
proof -
  have tg: "target env (Some cid) s = Inr (s, cid, c)"
    using assms(3,4) by (simp add: target_def getConversation_def)
  obtain c' where c': "getConversation cid (fst (sendMessage env text (Some cid) s)) = Some c'"
    "map isUser (messages c') = [True, False]"
    "map content (messages c') = [text, answer resp]"
    "title c' = (if 50 < length text then take 50 text @ js ''...'' else text)"
    using assms(1,2,5,6,7) tg
    by (simp add: sendMessage_def Let_def write_back_def getConversation_def
          map_of_update_same saveConversations_def first_title_def)
  have two: "2 \<le> length (messages c')"
    using c'(2) by (metis length_map list.size(3,4) One_nat_def Suc_1 le_refl add_0 add_Suc_right Suc_eq_plus1)
  have later: "\<forall>later. \<exists>c''. getConversation cid
           (foldl (send_to cid) (fst (sendMessage env text (Some cid) s)) later) = Some c''
         \<and> title c'' = title c'"
    using later_sends_keep_title [OF assms(3) c'(1) two] by blast
  show ?thesis
    by (rule exI [of _ c']) (use c' later in simp)
qed

theorem title_from_first_exchange_witness:
  "map_option title
     (getConversation (js ''b'')
        (fst (sendMessage (send_at 7 9 hello)
                (js ''0123456789012345678901234567890123456789012345678901'')
                (Some (js ''b'')) two_conversations)))
   = Some (js ''01234567890123456789012345678901234567890123456789...'')
   \<and> map_option title
     (getConversation (js ''b'')
        (foldl (send_to (js ''b''))
           (fst (sendMessage (send_at 7 9 hello)
                   (js ''0123456789012345678901234567890123456789012345678901'')
                   (Some (js ''b'')) two_conversations))
           [(send_at 11 13 hello, js ''again''), (send_at 15 17 offline, js ''more'')]))
   = Some (js ''01234567890123456789012345678901234567890123456789...'')"
proof -
  let ?c = "\<lparr>conv_id = js ''b'', title = js ''New Conversation'', messages = [],
             createdAt = 2, updatedAt = 2\<rparr>"
  let ?text = "js ''0123456789012345678901234567890123456789012345678901''"
  have 1: "isAuthenticated two_conversations" and 2: "\<not> isWeb two_conversations"
    by (simp_all add: two_conversations_def signed_in_def)
  have 3: "js ''b'' \<noteq> []"
    by (simp add: js_def)
  have 4: "getConversation (js ''b'') two_conversations = Some ?c"
    by (simp add: getConversation_def two_conversations_def js_def)
  have 5: "messages ?c = []" and 6: "title ?c = js ''New Conversation''"
    by simp_all
  have 7: "snd (exchange (send_at 7 9 hello))
           = Inr \<lparr>success = True, answer = js ''Hello'', resp_threadUrlSlug = JStr [],
                  resp_readWriteToken = JStr [], fullResponse = 5\<rparr>"
    by (simp add: send_at_def hello_def)
  have t: "(if 50 < length ?text then take 50 ?text @ js ''...'' else ?text)
           = js ''01234567890123456789012345678901234567890123456789...''"
    by (simp add: js_def)
  obtain c' where c': "getConversation (js ''b'')
        (fst (sendMessage (send_at 7 9 hello) ?text (Some (js ''b'')) two_conversations)) = Some c'"
      "title c' = js ''01234567890123456789012345678901234567890123456789...''"
      "\<forall>later. \<exists>c''. getConversation (js ''b'')
           (foldl (send_to (js ''b''))
              (fst (sendMessage (send_at 7 9 hello) ?text (Some (js ''b'')) two_conversations))
              later) = Some c'' \<and> title c'' = title c'"
    using title_from_first_exchange [OF 1 2 3 4 5 6 7, of ?text] unfolding t by blast
  obtain c'' where "getConversation (js ''b'')
           (foldl (send_to (js ''b''))
              (fst (sendMessage (send_at 7 9 hello) ?text (Some (js ''b'')) two_conversations))
              [(send_at 11 13 hello, js ''again''), (send_at 15 17 offline, js ''more'')]) = Some c''"
      "title c'' = title c'"
    using c'(3) by blast
  then show ?thesis using c'(1,2) by simp
qed

subsection \<open>The order of \<open>getConversations\<close>\<close>







subsection \<open>The stored snapshot\<close>

text \<open>
  \<open>createConversation\<close>, \<open>deleteConversation\<close>, \<open>clearConversations\<close> and a \<open>sendMessage\<close>
  that returns leave the stored snapshot equal to the store.
\<close>

lemma in_sync_save: "in_sync (saveConversations s)"
  by (simp add: in_sync_def saveConversations_def)

lemma in_sync_create: "in_sync (fst (createConversation env title_arg s))"
  by (simp add: createConversation_def Let_def in_sync_save)

lemma in_sync_delete: "in_sync (deleteConversation cid s)"
  by (simp add: deleteConversation_def in_sync_save)

lemma in_sync_clear: "in_sync (clearConversations s)"
  by (simp add: clearConversations_def in_sync_save)

lemma in_sync_send_success:
  "sendMessage env text conversationId s = (s', Inr messageId) \<Longrightarrow> in_sync s'"
  by (auto simp add: sendMessage_def Let_def in_sync_def saveConversations_def
        split: if_splits sum.splits prod.splits)


text \<open>
  A \<open>sendMessage\<close> whose exchange fails leaves them different, whatever conversation of
  a signed-in desktop service it was sent to.
\<close>

lemma update_changes_values:
  "map_of al k = Some c \<Longrightarrow> map snd (AList.update k v al) = map snd al \<Longrightarrow> v = c"
  by (induction al) (auto split: if_splits)

lemma failed_send_out_of_sync:
  assumes "isAuthenticated s" and "\<not> isWeb s" and "cid \<noteq> []"
    and "getConversation cid s = Some c" and "in_sync s"
    and "snd (exchange env) = Inl err"
  shows "\<not> in_sync (fst (sendMessage env text (Some cid) s))"
proof -
  let ?c1 = "c\<lparr>messages := messages c @ [\<lparr>msg_id = generateId (message_now env) (message_random env),
                                             content = text, timestamp = user_timestamp env,
                                             isUser = True, msg_response = None\<rparr>],
                 updatedAt := user_updated env\<rparr>"
  have tg: "target env (Some cid) s = Inr (s, cid, c)"
    using assms(3,4) by (simp add: target_def getConversation_def)
  have st: "storage (fst (sendMessage env text (Some cid) s)) = storage s"
    and cv: "conversations (fst (sendMessage env text (Some cid) s))
             = AList.update cid ?c1 (conversations s)"
    using assms(1,2,6) tg by (simp_all add: sendMessage_def Let_def write_back_def)
  have "messages ?c1 \<noteq> messages c" by simp
  then have "?c1 \<noteq> c" by metis
  then have "map snd (AList.update cid ?c1 (conversations s)) \<noteq> map snd (conversations s)"
    using update_changes_values [of "conversations s" cid c ?c1] assms(4)
    by (auto simp add: getConversation_def)
  then show ?thesis using assms(5) st cv by (simp add: in_sync_def)
qed

text \<open>
  Claim C9: after every operation that changes the store, the failed \<open>sendMessage\<close>
  included, the stored snapshot equals the store. The code does not do this for the
  failed \<open>sendMessage\<close>, which has appended the user message and rethrows without
  storing: below, the snapshot is still the one written by \<open>createConversation\<close>, with
  no message, and the store holds the conversation with the user message.
\<close>

theorem failed_exchange_is_not_stored:
  "storage (fst (sendMessage (send_at 7 9 offline) (js ''hi'') (Some (js ''5x''))
                   (fst (createConversation (created_at 5) None signed_in))))
     = Some [\<lparr>conv_id = js ''5x'', title = js ''New Conversation'', messages = [],
              createdAt = 5, updatedAt = 5\<rparr>]
   \<and> map snd (conversations
        (fst (sendMessage (send_at 7 9 offline) (js ''hi'') (Some (js ''5x''))
                (fst (createConversation (created_at 5) None signed_in)))))
     = [\<lparr>conv_id = js ''5x'', title = js ''New Conversation'',
         messages = [\<lparr>msg_id = js ''7m'', content = js ''hi'', timestamp = 7, isUser = True,
                      msg_response = None\<rparr>],
         createdAt = 5, updatedAt = 7\<rparr>]
   \<and> \<not> in_sync (fst (sendMessage (send_at 7 9 offline) (js ''hi'') (Some (js ''5x''))
                        (fst (createConversation (created_at 5) None signed_in))))"
  by code_simp

end
